theory Spec2Isabelle
  imports Main "HOL-Library.Word"
begin

unbundle bit_operations_syntax

section \<open>The QTI USB gadget HAL (hal/UsbGadget.cpp)\<close>

text \<open>
  A shallow embedding of \<^verbatim>\<open>UsbGadget.cpp\<close>: the two static tables, the tokenising
  linker \<^verbatim>\<open>addFunctionsFromPropString\<close>, the two VID/PID setters, the modem
  classifier \<^verbatim>\<open>getModemType\<close>, and the apply cycle
  \<^verbatim>\<open>setupFunctions\<close> / \<^verbatim>\<open>setCurrentUsbFunctions\<close>.

  The functions of \<^verbatim>\<open>UsbGadgetCommon.h\<close> (\<^verbatim>\<open>linkFunction\<close>,
  \<^verbatim>\<open>unlinkFunctions\<close>, \<^verbatim>\<open>setVidPid\<close>, \<^verbatim>\<open>resetGadget\<close>,
  \<^verbatim>\<open>addAdb\<close>, \<^verbatim>\<open>addGenericAndroidFunctions\<close>), the property store, sysfs
  and the FFS monitor are not part of the file. Whatever they read or decide is a field
  of the record \<open>env\<close>; whatever they change is a field of the record \<open>gadget\<close>, and
  every call to them is appended to the field \<open>calls\<close>.
\<close>

subsection \<open>Enumerations\<close>

datatype mdmType = INTERNAL | EXTERNAL | INTERNAL_EXTERNAL | NONE

datatype Status =
  SUCCESS | ERROR | FUNCTIONS_APPLIED | FUNCTIONS_NOT_APPLIED | CONFIGURATION_NOT_SUPPORTED

text \<open>
  The bits of \<^verbatim>\<open>GadgetFunction\<close> (declared in the HIDL interface
  \<^verbatim>\<open>android.hardware.usb.gadget@1.0\<close>, not in this file): a 64-bit mask.
\<close>

definition GF_NONE :: "64 word" where "GF_NONE = 0"
definition GF_ADB :: "64 word" where "GF_ADB = 1"
definition GF_ACCESSORY :: "64 word" where "GF_ACCESSORY = 2"
definition GF_MTP :: "64 word" where "GF_MTP = 4"
definition GF_MIDI :: "64 word" where "GF_MIDI = 8"
definition GF_PTP :: "64 word" where "GF_PTP = 16"
definition GF_RNDIS :: "64 word" where "GF_RNDIS = 32"
definition GF_AUDIO_SOURCE :: "64 word" where "GF_AUDIO_SOURCE = 64"

subsection \<open>Property names\<close>

definition USB_CONTROLLER_PROP :: string where "USB_CONTROLLER_PROP = ''vendor.usb.controller''"
definition DIAG_FUNC_NAME_PROP :: string where "DIAG_FUNC_NAME_PROP = ''vendor.usb.diag.func.name''"
definition RNDIS_FUNC_NAME_PROP :: string where "RNDIS_FUNC_NAME_PROP = ''vendor.usb.rndis.func.name''"
definition RMNET_FUNC_NAME_PROP :: string where "RMNET_FUNC_NAME_PROP = ''vendor.usb.rmnet.func.name''"
definition RMNET_INST_NAME_PROP :: string where "RMNET_INST_NAME_PROP = ''vendor.usb.rmnet.inst.name''"
definition DPL_INST_NAME_PROP :: string where "DPL_INST_NAME_PROP = ''vendor.usb.dpl.inst.name''"
definition VENDOR_USB_PROP :: string where "VENDOR_USB_PROP = ''vendor.usb.config''"
definition PERSIST_VENDOR_USB_PROP :: string where "PERSIST_VENDOR_USB_PROP = ''persist.vendor.usb.config''"
definition QDSS_INST_NAME_PROP :: string where "QDSS_INST_NAME_PROP = ''vendor.usb.qdss.inst.name''"

subsection \<open>The world outside the file\<close>

text \<open>
  \<open>props\<close> is the property store (the empty string for a property that is not set);
  \<open>esoc_dir\<close> is \<^verbatim>\<open>/sys/bus/esoc/devices\<close>: \<open>None\<close> when \<^verbatim>\<open>opendir\<close> fails,
  otherwise the entries in \<^verbatim>\<open>readdir\<close> order, each with the content of its
  \<^verbatim>\<open>esoc_name\<close> file when that can be read; \<open>soc_machine\<close> is the content of
  \<^verbatim>\<open>/sys/devices/soc0/machine\<close> when it can be read. The remaining fields say
  which calls of the collaborators fail, which nodes
  \<^verbatim>\<open>addGenericAndroidFunctions\<close> links for a mask and whether it sets
  \<^verbatim>\<open>ffsEnabled\<close>, and whether the monitor signals pull-up before the timeout.
\<close>

record env =
  props :: "string \<Rightarrow> string"
  esoc_dir :: "(string \<times> string option) list option"
  soc_machine :: "string option"
  link_fails :: "string \<Rightarrow> nat \<Rightarrow> bool"
  setvidpid_fails :: "string \<Rightarrow> string \<Rightarrow> bool"
  reset_fails :: bool
  pullup_write_fails :: bool
  generic_nodes :: "64 word \<Rightarrow> string list"
  generic_ffs :: "64 word \<Rightarrow> bool"
  wait_pullup :: bool

datatype event =
  EvResetGadget
  | EvMonitorReset
  | EvLink string nat
  | EvUnlinkFunctions
  | EvSetVidPid string string
  | EvPullup string
  | EvRegisterCallback
  | EvStartMonitor
  | EvCallback "64 word" Status

text \<open>
  The two members of \<^verbatim>\<open>UsbGadget\<close>, and the state of configfs and of the monitor:
  \<open>linked\<close> holds the symlinks \<^verbatim>\<open>function<i>\<close> of the configuration in the order
  they were made, \<open>vidpid\<close> the two id files, \<open>pullup\<close> the UDC file (\<open>None\<close> is
  \<^verbatim>\<open>"none"\<close>).
\<close>

record gadget =
  mCurrentUsbFunctions :: "64 word"
  mCurrentUsbFunctionsApplied :: bool
  linked :: "(nat \<times> string) list"
  vidpid :: "(string \<times> string) option"
  pullup :: "string option"
  monitorRunning :: bool
  calls :: "event list"

definition GetProperty :: "env \<Rightarrow> string \<Rightarrow> string \<Rightarrow> string" where
  "GetProperty e key default_value =
     (let v = props e key in if v = [] then default_value else v)"

definition called :: "event \<Rightarrow> gadget \<Rightarrow> gadget" where
  "called ev s = s\<lparr>calls := calls s @ [ev]\<rparr>"

subsection \<open>The collaborators\<close>

text \<open>
  \<^verbatim>\<open>linkFunction(name, index)\<close> makes the symlink \<^verbatim>\<open>function<index>\<close> and returns
  non-zero when it cannot.
\<close>

definition linkFunction :: "env \<Rightarrow> string \<Rightarrow> nat \<Rightarrow> gadget \<Rightarrow> int \<times> gadget" where
  "linkFunction e name index s =
     (let s1 = called (EvLink name index) s in
      if link_fails e name index then (- 1, s1)
      else (0, s1\<lparr>linked := linked s1 @ [(index, name)]\<rparr>))"

definition unlinkFunctions :: "gadget \<Rightarrow> gadget" where
  "unlinkFunctions s = (called EvUnlinkFunctions s)\<lparr>linked := []\<rparr>"

definition setVidPid :: "env \<Rightarrow> string \<Rightarrow> string \<Rightarrow> gadget \<Rightarrow> Status \<times> gadget" where
  "setVidPid e vid pid s =
     (let s1 = called (EvSetVidPid vid pid) s in
      if setvidpid_fails e vid pid then (ERROR, s1)
      else (SUCCESS, s1\<lparr>vidpid := Some (vid, pid)\<rparr>))"

text \<open>
  Modelled from the spec: \<^verbatim>\<open>resetGadget\<close> is not in the file. Teardown
  ``unlinks all currently linked functions, clears VID/PID, clears the pull-up file''.
  A reset that fails is taken to have changed nothing.
\<close>

definition resetGadget :: "env \<Rightarrow> gadget \<Rightarrow> Status \<times> gadget" where
  "resetGadget e s =
     (let s1 = called EvResetGadget s in
      if reset_fails e then (ERROR, s1)
      else (SUCCESS, s1\<lparr>linked := [], vidpid := None, pullup := None\<rparr>))"

text \<open>
  Modelled from the spec: \<^verbatim>\<open>addAdb\<close> is not in the file. It ``appends the dedicated
  ADB function last'': one \<^verbatim>\<open>linkFunction\<close> of the ADB node at the running index.
\<close>

definition addAdb :: "env \<Rightarrow> nat \<Rightarrow> gadget \<Rightarrow> Status \<times> nat \<times> gadget" where
  "addAdb e i s =
     (case linkFunction e ''ffs.adb'' i s of
        (r, s1) \<Rightarrow> if r \<noteq> 0 then (ERROR, Suc i, s1) else (SUCCESS, Suc i, s1))"

text \<open>
  \<^verbatim>\<open>addGenericAndroidFunctions\<close> is not in the file either: it links the nodes
  \<open>generic_nodes e functions\<close> one after the other from the running index, stops at the
  first failure, and reports \<open>generic_ffs e functions\<close> in \<^verbatim>\<open>ffsEnabled\<close>.
\<close>

fun linkNodes :: "env \<Rightarrow> string list \<Rightarrow> nat \<Rightarrow> gadget \<Rightarrow> Status \<times> nat \<times> gadget" where
  "linkNodes e [] i s = (SUCCESS, i, s)"
| "linkNodes e (n # ns) i s =
     (case linkFunction e n i s of
        (r, s1) \<Rightarrow> if r \<noteq> 0 then (ERROR, Suc i, s1) else linkNodes e ns (Suc i) s1)"

definition addGenericAndroidFunctions ::
  "env \<Rightarrow> 64 word \<Rightarrow> nat \<Rightarrow> gadget \<Rightarrow> Status \<times> bool \<times> nat \<times> gadget" where
  "addGenericAndroidFunctions e functions i s =
     (case linkNodes e (generic_nodes e functions) i s of
        (st, i1, s1) \<Rightarrow> (st, generic_ffs e functions, i1, s1))"

subsection \<open>getCurrentUsbFunctions, tearDownGadget\<close>

definition getCurrentUsbFunctions :: "gadget \<Rightarrow> 64 word \<times> Status" where
  "getCurrentUsbFunctions s =
     (mCurrentUsbFunctions s,
      if mCurrentUsbFunctionsApplied s then FUNCTIONS_APPLIED else FUNCTIONS_NOT_APPLIED)"

definition tearDownGadget :: "env \<Rightarrow> gadget \<Rightarrow> Status \<times> gadget" where
  "tearDownGadget e s =
     (case resetGadget e s of
        (st, s1) \<Rightarrow>
          if st \<noteq> SUCCESS then (ERROR, s1)
          else if monitorRunning s1
            then (SUCCESS, (called EvMonitorReset s1)\<lparr>monitorRunning := False\<rparr>)
            else (SUCCESS, s1))"

subsection \<open>The tables\<close>

definition supported_compositions :: "(string \<times> string \<times> string) list" where
  "supported_compositions = [
    (''mass_storage'', ''0x05C6'', ''0xF000''),
    (''mass_storage,adb'', ''0x05C6'', ''0x9015''),
    (''diag,adb'', ''0x05C6'', ''0x901D''),
    (''diag'', ''0x05C6'', ''0x900E''),
    (''diag,serial_cdev,rmnet,adb'', ''0x05C6'', ''0x9091''),
    (''diag,serial_cdev,rmnet'', ''0x05C6'', ''0x9092''),
    (''rndis'', ''0x05C6'', ''0xF00E''),
    (''rndis,adb'', ''0x05C6'', ''0x9024''),
    (''rndis,diag'', ''0x05C6'', ''0x902C''),
    (''rndis,diag,adb'', ''0x05C6'', ''0x902D''),
    (''rndis,serial_cdev'', ''0x05C6'', ''0x90B3''),
    (''rndis,serial_cdev,adb'', ''0x05C6'', ''0x90B4''),
    (''rndis,serial_cdev,diag,'', ''0x05C6'', ''0x90B5''),
    (''rndis,serial_cdev,diag,adb'', ''0x05C6'', ''0x90B6''),
    (''mtp,diag'', ''0x05C6'', ''0x901B''),
    (''mtp,diag,adb'', ''0x05C6'', ''0x903A''),
    (''diag,qdss'', ''0x05C6'', ''0x904A''),
    (''diag,qdss,adb'', ''0x05C6'', ''0x9060''),
    (''rndis,diag,qdss'', ''0x05C6'', ''0x9081''),
    (''rndis,diag,qdss,adb'', ''0x05C6'', ''0x9082''),
    (''diag,qdss,rmnet'', ''0x05C6'', ''0x9083''),
    (''diag,qdss,rmnet,adb'', ''0x05C6'', ''0x9084''),
    (''ncm'', ''0x05C6'', ''0xA4A1''),
    (''ncm,adb'', ''0x05C6'', ''0x908C''),
    (''diag,serial_cdev'', ''0x05C6'', ''0x9004''),
    (''diag,serial_cdev,rmnet,dpl'', ''0x05C6'', ''0x90B7''),
    (''diag,serial_cdev,rmnet,dpl,adb'', ''0x05C6'', ''0x90B8''),
    (''rndis,diag,dpl'', ''0x05C6'', ''0x90BF''),
    (''rndis,diag,dpl,adb'', ''0x05C6'', ''0x90C0''),
    (''ccid'', ''0x05C6'', ''0x90CE''),
    (''ccid,adb'', ''0x05C6'', ''0x90CF''),
    (''ccid,diag'', ''0x05C6'', ''0x90D0''),
    (''ccid,diag,adb'', ''0x05C6'', ''0x90D1''),
    (''diag,serial_cdev,rmnet,ccid'', ''0x05C6'', ''0x90D2''),
    (''diag,serial_cdev,rmnet,ccid,adb'', ''0x05C6'', ''0x90D3''),
    (''diag,diag_mdm,qdss,qdss_mdm,serial_cdev,serial_cdev_mdm,rmnet'',
       ''0x05C6'', ''0x90D7''),
    (''diag,diag_mdm,qdss,qdss_mdm,serial_cdev,serial_cdev_mdm,rmnet,adb'',
       ''0x05C6'', ''0x90D8''),
    (''diag,diag_mdm,qdss,qdss_mdm,serial_cdev,serial_cdev_mdm,dpl,rmnet'',
       ''0x05C6'', ''0x90DD''),
    (''diag,diag_mdm,qdss,qdss_mdm,serial_cdev,serial_cdev_mdm,dpl,rmnet,adb'',
       ''0x05C6'', ''0x90DE''),
    (''diag,serial_cdev,rmnet,dpl,qdss'', ''0x05C6'', ''0x90DC''),
    (''diag,serial_cdev,rmnet,dpl,qdss,adb'', ''0x05C6'', ''0x90DB''),
    (''diag,uac2,adb'', ''0x05C6'', ''0x90CA''),
    (''diag,uac2'', ''0x05C6'', ''0x901C''),
    (''diag,uvc,adb'', ''0x05C6'', ''0x90CB''),
    (''diag,uvc'', ''0x05C6'', ''0x90DF''),
    (''diag,uac2,uvc,adb'', ''0x05C6'', ''0x90CC''),
    (''diag,uac2,uvc'', ''0x05C6'', ''0x90E0''),
    (''diag,diag_mdm,qdss,qdss_mdm,serial_cdev,dpl,rmnet'',
       ''0x05C6'', ''0x90E4''),
    (''diag,diag_mdm,qdss,qdss_mdm,serial_cdev,dpl,rmnet,adb'',
       ''0x05C6'', ''0x90E5''),
    (''rndis,diag,diag_mdm,qdss,qdss_mdm,serial_cdev,dpl'',
       ''0x05C6'', ''0x90E6''),
    (''rndis,diag,diag_mdm,qdss,qdss_mdm,serial_cdev,dpl,adb'',
       ''0x05C6'', ''0x90E7''),
    (''rndis,diag,qdss,serial_cdev,dpl'', ''0x05C6'', ''0x90E8''),
    (''rndis,diag,qdss,serial_cdev,dpl,adb'', ''0x05C6'', ''0x90E9''),
    (''diag,diag_mdm,adb'', ''0x05C6'', ''0x90D9''),
    (''diag,diag_mdm,diag_mdm2,qdss,qdss_mdm,serial_cdev,dpl,rmnet'',
       ''0x05C6'', ''0x90F6''),
    (''diag,diag_mdm,diag_mdm2,qdss,qdss_mdm,serial_cdev,dpl,rmnet,adb'',
       ''0x05C6'', ''0x90F7''),
    (''rndis,diag,diag_mdm,diag_mdm2,qdss,qdss_mdm,serial_cdev,dpl'',
       ''0x05C6'', ''0x90F8''),
    (''rndis,diag,diag_mdm,diag_mdm2,qdss,qdss_mdm,serial_cdev,dpl,adb'',
       ''0x05C6'', ''0x90F9''),
    (''diag,diag_mdm,qdss_mdm,dpl,adb'', ''0x05C6'', ''0x90FF''),
    (''diag,qdss,dpl,adb'', ''0x05C6'', ''0x9104''),
    (''diag,dpl'', ''0x05C6'', ''0x9105''),
    (''diag,diag_cnss,serial_cdev,rmnet,dpl,qdss,adb'', ''0x05C6'', ''0x9110''),
    (''diag,diag_cnss,serial_cdev,rmnet,dpl,qdss'', ''0x05C6'', ''0x9111'')]"

definition rndisFuncname :: "env \<Rightarrow> string" where
  "rndisFuncname e =
     (let rndisFunc = GetProperty e RNDIS_FUNC_NAME_PROP [] in
      if rndisFunc = [] then ''rndis'' else rndisFunc @ ''.rndis'')"

definition supported_funcs :: "(string \<times> (env \<Rightarrow> string)) list" where
  "supported_funcs = [
    (''adb'', \<lambda>e. ''ffs.adb''),
    (''ccid'', \<lambda>e. ''ccid.ccid''),
    (''diag'', \<lambda>e. GetProperty e DIAG_FUNC_NAME_PROP ''diag'' @ ''.diag''),
    (''diag_cnss'', \<lambda>e. GetProperty e DIAG_FUNC_NAME_PROP ''diag'' @ ''.diag_mdm2''),
    (''diag_mdm2'', \<lambda>e. GetProperty e DIAG_FUNC_NAME_PROP ''diag'' @ ''.diag_mdm2''),
    (''diag_mdm'', \<lambda>e. GetProperty e DIAG_FUNC_NAME_PROP ''diag'' @ ''.diag_mdm''),
    (''dpl'', \<lambda>e. GetProperty e RMNET_FUNC_NAME_PROP ''gsi'' @ ''.''
                  @ GetProperty e DPL_INST_NAME_PROP ''dpl''),
    (''mass_storage'', \<lambda>e. ''mass_storage.0''),
    (''mtp'', \<lambda>e. ''ffs.mtp''),
    (''ncm'', \<lambda>e. ''ncm.0''),
    (''ptp'', \<lambda>e. ''ffs.ptp''),
    (''qdss'', \<lambda>e. ''qdss.'' @ GetProperty e QDSS_INST_NAME_PROP ''qdss''),
    (''qdss_mdm'', \<lambda>e. ''qdss.qdss_mdm''),
    (''rmnet'', \<lambda>e. GetProperty e RMNET_FUNC_NAME_PROP ''gsi'' @ ''.''
                    @ GetProperty e RMNET_INST_NAME_PROP ''rmnet''),
    (''rndis'', rndisFuncname),
    (''serial_cdev'', \<lambda>e. ''cser.dun.0''),
    (''serial_cdev_mdm'', \<lambda>e. ''cser.dun.2''),
    (''uac2'', \<lambda>e. ''uac2.0''),
    (''uvc'', \<lambda>e. ''uvc.0'')]"

subsection \<open>std::string searches\<close>

text \<open>
  \<^verbatim>\<open>size_t\<close> is a 64-bit word and \<^verbatim>\<open>std::string::npos\<close> its largest value.
  \<open>find_from\<close> and \<open>find_last_of_from\<close> return the position as a natural number when
  there is one; \<open>size_t_of\<close> turns the answer into what the C++ call returns.
\<close>

definition npos :: "64 word" where
  "npos = - 1"

fun find_from :: "string \<Rightarrow> string \<Rightarrow> nat \<Rightarrow> nat option" where
  "find_from [] pat n = (if pat = [] then Some n else None)"
| "find_from (c # cs) pat n =
     (if take (length pat) (c # cs) = pat then Some n else find_from cs pat (Suc n))"

fun find_last_of_from :: "string \<Rightarrow> char \<Rightarrow> nat \<Rightarrow> nat option" where
  "find_last_of_from [] ch n = None"
| "find_last_of_from (c # cs) ch n =
     (case find_last_of_from cs ch (Suc n) of
        Some p \<Rightarrow> Some p
      | None \<Rightarrow> if c = ch then Some n else None)"

definition size_t_of :: "nat option \<Rightarrow> 64 word" where
  "size_t_of r = (case r of None \<Rightarrow> npos | Some n \<Rightarrow> word_of_nat n)"

definition str_find :: "string \<Rightarrow> string \<Rightarrow> 64 word" where
  "str_find str pat = size_t_of (find_from str pat 0)"

definition str_find_last_of :: "string \<Rightarrow> char \<Rightarrow> 64 word" where
  "str_find_last_of str ch = size_t_of (find_last_of_from str ch 0)"

subsection \<open>addFunctionsFromPropString\<close>

text \<open>
  The loop cuts \<open>prop\<close> at every comma (\<^verbatim>\<open>find_first_of\<close>, \<^verbatim>\<open>substr\<close>) and handles
  each piece before it looks for the next one. \<open>tokens acc rest\<close> is the list of the
  values \<^verbatim>\<open>funcname\<close> takes, in order, when \<open>acc\<close> is the part of the current piece
  already read: the piece after a trailing comma and the only piece of the empty
  string are the empty piece. \<open>addFunctions\<close> is the body of the loop on these pieces.
\<close>

fun tokens :: "string \<Rightarrow> string \<Rightarrow> string list" where
  "tokens acc [] = [acc]"
| "tokens acc (c # cs) =
     (if c = CHR '','' then acc # tokens [] cs else tokens (acc @ [c]) cs)"

fun addFunctions :: "env \<Rightarrow> string list \<Rightarrow> nat \<Rightarrow> bool \<Rightarrow> gadget \<Rightarrow> int \<times> nat \<times> gadget" where
  "addFunctions e [] i adb s = (0, i, s)"
| "addFunctions e (funcname # rest) i adb s =
     (if \<not> adb \<and> funcname = ''adb'' then addFunctions e rest i adb s
      else case map_of supported_funcs funcname of
        None \<Rightarrow> (- 1, i, s)
      | Some f \<Rightarrow>
          (case linkFunction e (f e) i s of
             (r, s1) \<Rightarrow>
               if r \<noteq> 0 then (- 1, Suc i, s1) else addFunctions e rest (Suc i) adb s1))"

definition addFunctionsFromPropString ::
  "env \<Rightarrow> string \<Rightarrow> nat \<Rightarrow> bool \<Rightarrow> gadget \<Rightarrow> int \<times> nat \<times> gadget" where
  "addFunctionsFromPropString e prop i adb s = addFunctions e (tokens [] prop) i adb s"

subsection \<open>lookupAndSetVidPid, validateAndSetVidPid\<close>

definition lookupAndSetVidPid :: "env \<Rightarrow> string \<Rightarrow> gadget \<Rightarrow> int \<times> gadget" where
  "lookupAndSetVidPid e prop s =
     (case map_of supported_compositions prop of
        None \<Rightarrow> (- 1, s)
      | Some (vid, pid) \<Rightarrow>
          (case setVidPid e vid pid s of
             (st, s1) \<Rightarrow> if st \<noteq> SUCCESS then (- 1, s1) else (0, s1)))"

definition validateAndSetVidPid :: "env \<Rightarrow> 64 word \<Rightarrow> gadget \<Rightarrow> Status \<times> gadget" where
  "validateAndSetVidPid e functions s =
     (if functions = GF_ADB then setVidPid e ''0x18d1'' ''0x4ee7'' s
      else if functions = GF_MTP then setVidPid e ''0x18d1'' ''0x4ee1'' s
      else if functions = GF_ADB OR GF_MTP then setVidPid e ''0x18d1'' ''0x4ee2'' s
      else if functions = GF_RNDIS then setVidPid e ''0x18d1'' ''0x4ee3'' s
      else if functions = GF_ADB OR GF_RNDIS then setVidPid e ''0x18d1'' ''0x4ee4'' s
      else if functions = GF_PTP then setVidPid e ''0x18d1'' ''0x4ee5'' s
      else if functions = GF_ADB OR GF_PTP then setVidPid e ''0x18d1'' ''0x4ee6'' s
      else if functions = GF_MIDI then setVidPid e ''0x18d1'' ''0x4ee8'' s
      else if functions = GF_ADB OR GF_MIDI then setVidPid e ''0x18d1'' ''0x4ee9'' s
      else if functions = GF_ACCESSORY then setVidPid e ''0x18d1'' ''0x2d00'' s
      else if functions = GF_ADB OR GF_ACCESSORY then setVidPid e ''0x18d1'' ''0x2d01'' s
      else if functions = GF_AUDIO_SOURCE then setVidPid e ''0x18d1'' ''0x2d02'' s
      else if functions = GF_ADB OR GF_AUDIO_SOURCE then setVidPid e ''0x18d1'' ''0x2d03'' s
      else if functions = GF_ACCESSORY OR GF_AUDIO_SOURCE
        then setVidPid e ''0x18d1'' ''0x2d04'' s
      else if functions = GF_ADB OR GF_ACCESSORY OR GF_AUDIO_SOURCE
        then setVidPid e ''0x18d1'' ''0x2d05'' s
      else (CONFIGURATION_NOT_SUPPORTED, s))"

subsection \<open>getModemType\<close>

text \<open>
  \<open>scan_esoc\<close> is the \<^verbatim>\<open>readdir\<close> loop: it skips the entries whose name starts with
  a dot and those whose \<^verbatim>\<open>esoc_name\<close> cannot be read, and stops at the first name
  that contains \<^verbatim>\<open>MDM\<close> or \<^verbatim>\<open>SDX\<close>. In the rest of the function the C++ tests
  \<^verbatim>\<open>mtype\<close> as a truth value: every type but \<open>INTERNAL\<close> (the value 0) is true.
\<close>

fun scan_esoc :: "(string \<times> string option) list \<Rightarrow> mdmType" where
  "scan_esoc [] = INTERNAL"
| "scan_esoc ((d_name, content) # rest) =
     (if take 1 d_name = ''.'' then scan_esoc rest
      else case content of
        None \<Rightarrow> scan_esoc rest
      | Some esoc_name \<Rightarrow>
          if str_find esoc_name ''MDM'' \<noteq> npos \<or> str_find esoc_name ''SDX'' \<noteq> npos
          then EXTERNAL else scan_esoc rest)"

definition getModemType :: "env \<Rightarrow> mdmType" where
  "getModemType e =
     (case esoc_dir e of
        None \<Rightarrow> INTERNAL
      | Some entries \<Rightarrow>
          (let mtype = scan_esoc entries in
           case soc_machine e of
             None \<Rightarrow> mtype
           | Some machine \<Rightarrow>
               (let pos_sda = str_find machine ''SDA'';
                    pos_p = str_find_last_of machine CHR ''P'';
                    len = (word_of_nat (length machine) :: 64 word)
                in if pos_sda \<noteq> npos \<or> pos_p = len - 1
                   then (if mtype \<noteq> INTERNAL then mtype else NONE)
                   else if mtype \<noteq> INTERNAL then INTERNAL_EXTERNAL else mtype)))"

subsection \<open>setupFunctions\<close>

text \<open>The two \<^verbatim>\<open>switch (mtype)\<close> statements that choose \<^verbatim>\<open>comp\<close>.\<close>

fun rndis_adb_comp :: "mdmType \<Rightarrow> string" where
  "rndis_adb_comp EXTERNAL = ''rndis,diag,diag_mdm,qdss,qdss_mdm,serial_cdev,dpl,adb''"
| "rndis_adb_comp INTERNAL_EXTERNAL = ''rndis,diag,diag_mdm,qdss,qdss_mdm,serial_cdev,dpl,adb''"
| "rndis_adb_comp INTERNAL = ''rndis,diag,qdss,serial_cdev,dpl,adb''"
| "rndis_adb_comp NONE = ''rndis,adb''"

fun adb_default_comp :: "mdmType \<Rightarrow> string" where
  "adb_default_comp EXTERNAL = ''diag,diag_mdm,qdss,qdss_mdm,serial_cdev,dpl,rmnet,adb''"
| "adb_default_comp INTERNAL_EXTERNAL = ''diag,diag_mdm,qdss,qdss_mdm,serial_cdev,dpl,rmnet,adb''"
| "adb_default_comp INTERNAL = ''diag,serial_cdev,rmnet,dpl,qdss,adb''"
| "adb_default_comp NONE = ''diag,adb''"

text \<open>
  \<open>link_comp\<close> is the pair of calls made for a fixed composition:
  \<^verbatim>\<open>addFunctionsFromPropString(comp, i, false)\<close>, then \<^verbatim>\<open>lookupAndSetVidPid(comp)\<close>,
  each returning \<^verbatim>\<open>Status::ERROR\<close> from \<^verbatim>\<open>setupFunctions\<close> when it fails.
\<close>

definition link_comp :: "env \<Rightarrow> string \<Rightarrow> nat \<Rightarrow> gadget \<Rightarrow> Status \<times> nat \<times> gadget" where
  "link_comp e cmp i s =
     (case addFunctionsFromPropString e cmp i False s of
        (r, i1, s1) \<Rightarrow>
          if r \<noteq> 0 then (ERROR, i1, s1)
          else (case lookupAndSetVidPid e cmp s1 of
                  (r2, s2) \<Rightarrow> if r2 \<noteq> 0 then (ERROR, i1, s2) else (SUCCESS, i1, s2)))"

text \<open>
  The first \<^verbatim>\<open>if\<close> of \<^verbatim>\<open>setupFunctions\<close>: the RNDIS branch or the generic functions.
  The result is the status, \<^verbatim>\<open>ffsEnabled\<close>, \<^verbatim>\<open>i\<close> and the state.
\<close>

definition setup_first ::
  "env \<Rightarrow> 64 word \<Rightarrow> mdmType \<Rightarrow> gadget \<Rightarrow> Status \<times> bool \<times> nat \<times> gadget" where
  "setup_first e functions mtype s =
     (if functions AND GF_RNDIS \<noteq> 0 then
        (if functions AND GF_ADB \<noteq> 0 then
           (case link_comp e (rndis_adb_comp mtype) 0 s of
              (st, i1, s1) \<Rightarrow> (st, False, i1, s1))
         else
           (case linkFunction e (rndisFuncname e) 0 s of
              (r, s1) \<Rightarrow> if r \<noteq> 0 then (ERROR, False, 1, s1) else (SUCCESS, False, 1, s1)))
      else
        (case addGenericAndroidFunctions e functions 0 s of
           (st, ffs, i1, s1) \<Rightarrow>
             if st \<noteq> SUCCESS then (ERROR, ffs, i1, s1) else (SUCCESS, ffs, i1, s1)))"

text \<open>
  The block ``override adb-only with additional QTI functions'': the attempt on the
  vendor property, which on failure unlinks everything and sets \<^verbatim>\<open>i\<close> back to 0, and
  the default composition of the modem type.
\<close>

definition setup_override ::
  "env \<Rightarrow> 64 word \<Rightarrow> mdmType \<Rightarrow> string \<Rightarrow> nat \<Rightarrow> gadget \<Rightarrow> Status \<times> nat \<times> gadget" where
  "setup_override e functions mtype vendorProp i s =
     (if i = 0 \<and> functions AND GF_ADB \<noteq> 0 then
        (if vendorProp \<noteq> [] then
           (let vendorProp1 =
                  (if str_find vendorProp ''adb'' = npos then vendorProp @ '',adb''
                   else vendorProp)
            in case addFunctionsFromPropString e vendorProp1 i False s of
              (r, i1, s1) \<Rightarrow>
                if r = 0 then
                  (case lookupAndSetVidPid e vendorProp1 s1 of
                     (r2, s2) \<Rightarrow>
                       if r2 = 0 then (SUCCESS, i1, s2)
                       else link_comp e (adb_default_comp mtype) 0 (unlinkFunctions s2))
                else link_comp e (adb_default_comp mtype) 0 (unlinkFunctions s1))
         else link_comp e (adb_default_comp mtype) i s)
      else (SUCCESS, i, s))"

text \<open>The label \<^verbatim>\<open>enable_adb\<close>: the result is the status, \<^verbatim>\<open>ffsEnabled\<close> and the state.\<close>

definition enable_adb ::
  "env \<Rightarrow> 64 word \<Rightarrow> bool \<Rightarrow> nat \<Rightarrow> gadget \<Rightarrow> Status \<times> bool \<times> gadget" where
  "enable_adb e functions ffsEnabled i s =
     (if functions AND GF_ADB \<noteq> 0 then
        (case addAdb e i s of
           (st, i1, s1) \<Rightarrow> if st \<noteq> SUCCESS then (ERROR, True, s1) else (SUCCESS, True, s1))
      else (SUCCESS, ffsEnabled, s))"

text \<open>
  The lambda registered with the monitor: it stores its argument in
  \<^verbatim>\<open>mCurrentUsbFunctionsApplied\<close> and touches nothing else.
\<close>

definition functionsAppliedCallback :: "bool \<Rightarrow> gadget \<Rightarrow> gadget" where
  "functionsAppliedCallback functionsApplied s =
     s\<lparr>mCurrentUsbFunctionsApplied := functionsApplied\<rparr>"

text \<open>
  The end of \<^verbatim>\<open>setupFunctions\<close>: the immediate pull-up, or the monitor.

  Modelled from the spec: the monitor is not in the file. When it signals pull-up
  before the timeout (\<open>wait_pullup\<close>) it has written the pull-up file and invoked the
  registered callback with \<^verbatim>\<open>true\<close>; when it does not,
  \<^verbatim>\<open>waitForPullUp\<close> returns false and nothing has changed.
\<close>

definition pull_up ::
  "env \<Rightarrow> 64 word \<Rightarrow> bool \<Rightarrow> string \<Rightarrow> bool \<Rightarrow> gadget \<Rightarrow> Status \<times> gadget" where
  "pull_up e functions callback gadgetName ffsEnabled s =
     (if \<not> ffsEnabled then
        (let s1 = called (EvPullup gadgetName) s in
         if pullup_write_fails e then (ERROR, s1)
         else
           (let s2 = s1\<lparr>pullup := Some gadgetName, mCurrentUsbFunctionsApplied := True\<rparr> in
            (SUCCESS, if callback then called (EvCallback functions SUCCESS) s2 else s2)))
      else
        (let s1 = (called EvStartMonitor (called EvRegisterCallback s))
                    \<lparr>monitorRunning := True\<rparr>
         in if callback then
              (if wait_pullup e then
                 (SUCCESS,
                  called (EvCallback functions SUCCESS)
                    (functionsAppliedCallback True (s1\<lparr>pullup := Some gadgetName\<rparr>)))
               else (SUCCESS, called (EvCallback functions ERROR) s1))
            else (SUCCESS, s1)))"

definition setupFunctions :: "env \<Rightarrow> 64 word \<Rightarrow> bool \<Rightarrow> gadget \<Rightarrow> Status \<times> gadget" where
  "setupFunctions e functions callback s =
     (let gadgetName = GetProperty e USB_CONTROLLER_PROP [];
          vendorProp = GetProperty e VENDOR_USB_PROP (GetProperty e PERSIST_VENDOR_USB_PROP [])
      in if gadgetName = [] then (ERROR, s)
         else
           (let mtype = getModemType e in
            case setup_first e functions mtype s of
              (st1, ffsEnabled, i1, s1) \<Rightarrow>
                if st1 \<noteq> SUCCESS then (ERROR, s1)
                else (case setup_override e functions mtype vendorProp i1 s1 of
                  (st2, i2, s2) \<Rightarrow>
                    if st2 \<noteq> SUCCESS then (ERROR, s2)
                    else (case enable_adb e functions ffsEnabled i2 s2 of
                      (st3, ffsEnabled3, s3) \<Rightarrow>
                        if st3 \<noteq> SUCCESS then (ERROR, s3)
                        else pull_up e functions callback gadgetName ffsEnabled3 s3))))"

subsection \<open>setCurrentUsbFunctions\<close>

text \<open>The label \<^verbatim>\<open>error\<close>: the status goes to the callback when there is one.\<close>

definition report_error :: "64 word \<Rightarrow> bool \<Rightarrow> Status \<Rightarrow> gadget \<Rightarrow> gadget" where
  "report_error functions callback status s =
     (if callback then called (EvCallback functions status) s else s)"

definition setCurrentUsbFunctions :: "env \<Rightarrow> 64 word \<Rightarrow> bool \<Rightarrow> gadget \<Rightarrow> gadget" where
  "setCurrentUsbFunctions e functions callback s =
     (let s0 = s\<lparr>mCurrentUsbFunctions := functions, mCurrentUsbFunctionsApplied := False\<rparr>
      in case tearDownGadget e s0 of
        (status, s1) \<Rightarrow>
          if status \<noteq> SUCCESS then report_error functions callback status s1
          else if functions = GF_NONE then
            (if callback then called (EvCallback functions SUCCESS) s1 else s1)
          else (case validateAndSetVidPid e functions s1 of
            (status2, s2) \<Rightarrow>
              if status2 \<noteq> SUCCESS then report_error functions callback status2 s2
              else (case setupFunctions e functions callback s2 of
                (status3, s3) \<Rightarrow>
                  if status3 \<noteq> SUCCESS then report_error functions callback status3 s3
                  else s3)))"

subsection \<open>Three values the code computes on the way\<close>

text \<open>
  \<open>func_node e t\<close> is \<^verbatim>\<open>supported_funcs[funcname]()\<close>: the node a function name
  resolves to under the current properties (the empty string for a name that is not in
  the table, which the code never resolves). \<open>ffs_enabled e functions\<close> is the value of
  \<^verbatim>\<open>ffsEnabled\<close> when \<^verbatim>\<open>setupFunctions\<close> reaches the pull-up: the ADB bit sets it,
  and so may the generic functions when the RNDIS bit is not set. \<open>adb_only_comp e\<close>
  is the composition the block ``override adb-only'' tries first: the vendor property
  (with \<^verbatim>\<open>,adb\<close> appended when it does not contain \<^verbatim>\<open>adb\<close>) when it is set, and the
  default composition of the modem type when it is not.
\<close>

definition func_node :: "env \<Rightarrow> string \<Rightarrow> string" where
  "func_node e t = (case map_of supported_funcs t of Some f \<Rightarrow> f e | None \<Rightarrow> [])"

definition ffs_enabled :: "env \<Rightarrow> 64 word \<Rightarrow> bool" where
  "ffs_enabled e functions \<longleftrightarrow>
     functions AND GF_ADB \<noteq> 0 \<or> (functions AND GF_RNDIS = 0 \<and> generic_ffs e functions)"

definition adb_only_comp :: "env \<Rightarrow> string" where
  "adb_only_comp e =
     (let vendorProp = GetProperty e VENDOR_USB_PROP (GetProperty e PERSIST_VENDOR_USB_PROP [])
      in if vendorProp = [] then adb_default_comp (getModemType e)
         else if str_find vendorProp ''adb'' = npos then vendorProp @ '',adb''
         else vendorProp)"

subsection \<open>The status of a cycle, its points, and the ids of the validation\<close>

text \<open>
  \<^verbatim>\<open>setCurrentUsbFunctions\<close> returns nothing: \<open>cycle_status\<close> is the value its local
  variable \<^verbatim>\<open>status\<close> holds when it returns, the one the label \<^verbatim>\<open>error\<close> tests (on
  the path of the request None it is still that of the teardown).
\<close>

definition cycle_status :: "env \<Rightarrow> 64 word \<Rightarrow> bool \<Rightarrow> gadget \<Rightarrow> Status" where
  "cycle_status e functions callback s =
     (let s0 = s\<lparr>mCurrentUsbFunctions := functions, mCurrentUsbFunctionsApplied := False\<rparr>
      in case tearDownGadget e s0 of
        (status, s1) \<Rightarrow>
          if status \<noteq> SUCCESS then status
          else if functions = GF_NONE then status
          else (case validateAndSetVidPid e functions s1 of
            (status2, s2) \<Rightarrow>
              if status2 \<noteq> SUCCESS then status2
              else fst (setupFunctions e functions callback s2)))"

text \<open>
  \<^verbatim>\<open>getCurrentUsbFunctions\<close> takes no lock, so it can read the two members between any
  two statements of a running cycle. \<open>setup_points\<close> are the states \<^verbatim>\<open>setupFunctions\<close>
  goes through before its last step (the pull-up, or the monitor): after the first
  \<^verbatim>\<open>if\<close>, after the override block, after the label \<^verbatim>\<open>enable_adb\<close>.
  \<open>cycle_points\<close> are the states \<^verbatim>\<open>setCurrentUsbFunctions\<close> goes through, in order:
  after the two stores, after \<^verbatim>\<open>tearDownGadget\<close>, after \<^verbatim>\<open>validateAndSetVidPid\<close>,
  then those of \<^verbatim>\<open>setupFunctions\<close>. What remains of the cycle after the last of them
  is the pull-up step or the call of the callback.
\<close>

definition setup_points :: "env \<Rightarrow> 64 word \<Rightarrow> gadget \<Rightarrow> gadget list" where
  "setup_points e functions s =
     (let gadgetName = GetProperty e USB_CONTROLLER_PROP [];
          vendorProp = GetProperty e VENDOR_USB_PROP (GetProperty e PERSIST_VENDOR_USB_PROP [])
      in if gadgetName = [] then []
         else
           (let mtype = getModemType e in
            case setup_first e functions mtype s of
              (st1, ffsEnabled, i1, s1) \<Rightarrow>
                s1 # (if st1 \<noteq> SUCCESS then []
                 else (case setup_override e functions mtype vendorProp i1 s1 of
                  (st2, i2, s2) \<Rightarrow>
                    s2 # (if st2 \<noteq> SUCCESS then []
                     else (case enable_adb e functions ffsEnabled i2 s2 of
                      (st3, ffsEnabled3, s3) \<Rightarrow> [s3]))))))"

definition cycle_points :: "env \<Rightarrow> 64 word \<Rightarrow> gadget \<Rightarrow> gadget list" where
  "cycle_points e functions s =
     (let s0 = s\<lparr>mCurrentUsbFunctions := functions, mCurrentUsbFunctionsApplied := False\<rparr>
      in s0 # (case tearDownGadget e s0 of
        (status, s1) \<Rightarrow>
          s1 # (if status \<noteq> SUCCESS then []
           else if functions = GF_NONE then []
           else (case validateAndSetVidPid e functions s1 of
            (status2, s2) \<Rightarrow>
              s2 # (if status2 \<noteq> SUCCESS then [] else setup_points e functions s2)))))"

text \<open>
  \<open>generic_ids functions\<close> are the ids of the \<^verbatim>\<open>case\<close> that the \<^verbatim>\<open>switch\<close> of
  \<^verbatim>\<open>validateAndSetVidPid\<close> selects for \<open>functions\<close>, and \<open>None\<close> on its \<^verbatim>\<open>default\<close>.
\<close>

definition generic_ids :: "64 word \<Rightarrow> (string \<times> string) option" where
  "generic_ids functions =
     (if functions = GF_ADB then Some (''0x18d1'', ''0x4ee7'')
      else if functions = GF_MTP then Some (''0x18d1'', ''0x4ee1'')
      else if functions = GF_ADB OR GF_MTP then Some (''0x18d1'', ''0x4ee2'')
      else if functions = GF_RNDIS then Some (''0x18d1'', ''0x4ee3'')
      else if functions = GF_ADB OR GF_RNDIS then Some (''0x18d1'', ''0x4ee4'')
      else if functions = GF_PTP then Some (''0x18d1'', ''0x4ee5'')
      else if functions = GF_ADB OR GF_PTP then Some (''0x18d1'', ''0x4ee6'')
      else if functions = GF_MIDI then Some (''0x18d1'', ''0x4ee8'')
      else if functions = GF_ADB OR GF_MIDI then Some (''0x18d1'', ''0x4ee9'')
      else if functions = GF_ACCESSORY then Some (''0x18d1'', ''0x2d00'')
      else if functions = GF_ADB OR GF_ACCESSORY then Some (''0x18d1'', ''0x2d01'')
      else if functions = GF_AUDIO_SOURCE then Some (''0x18d1'', ''0x2d02'')
      else if functions = GF_ADB OR GF_AUDIO_SOURCE then Some (''0x18d1'', ''0x2d03'')
      else if functions = GF_ACCESSORY OR GF_AUDIO_SOURCE then Some (''0x18d1'', ''0x2d04'')
      else if functions = GF_ADB OR GF_ACCESSORY OR GF_AUDIO_SOURCE
        then Some (''0x18d1'', ''0x2d05'')
      else None)"

subsection \<open>Notions used by the statements\<close>

text \<open>
  \<open>unpulled s s'\<close>: going from \<open>s\<close> to \<open>s'\<close> has changed neither of the two members of
  \<^verbatim>\<open>UsbGadget\<close> nor the pull-up file. \<open>adb_links s\<close> are the calls of
  \<^verbatim>\<open>linkFunction\<close> on the ADB node recorded in \<open>s\<close>. \<open>adb_free s s'\<close>: from \<open>s\<close> to \<open>s'\<close> no such call was
  made, and the ADB node is not linked in \<open>s'\<close> unless it was in \<open>s\<close>.
  \<open>lined_up i s\<close>: the functions linked in \<open>s\<close> sit at the indices 0 to \<open>i - 1\<close>, in
  the order they were linked.
\<close>

definition unpulled :: "gadget \<Rightarrow> gadget \<Rightarrow> bool" where
  "unpulled s s' \<longleftrightarrow>
     mCurrentUsbFunctions s' = mCurrentUsbFunctions s \<and>
     mCurrentUsbFunctionsApplied s' = mCurrentUsbFunctionsApplied s \<and>
     pullup s' = pullup s"

fun is_adb_link :: "event \<Rightarrow> bool" where
  "is_adb_link (EvLink n i) = (n = ''ffs.adb'')"
| "is_adb_link ev = False"

definition adb_links :: "gadget \<Rightarrow> event list" where
  "adb_links s = filter is_adb_link (calls s)"

definition adb_free :: "gadget \<Rightarrow> gadget \<Rightarrow> bool" where
  "adb_free s s' \<longleftrightarrow>
     adb_links s' = adb_links s \<and>
     (''ffs.adb'' \<notin> snd ` set (linked s) \<longrightarrow> ''ffs.adb'' \<notin> snd ` set (linked s'))"

definition lined_up :: "nat \<Rightarrow> gadget \<Rightarrow> bool" where
  "lined_up i s \<longleftrightarrow> map fst (linked s) = [0..<i]"

text \<open>
  \<open>new_calls s s'\<close> are the calls recorded in \<open>s'\<close> after those of \<open>s\<close>, and
  \<open>extends s s'\<close> says that \<open>s'\<close> records the calls of \<open>s\<close> and then these.
  \<open>links_of e c\<close> are the symlinks made by the calls \<open>c\<close>: one for each
  \<^verbatim>\<open>linkFunction\<close> that does not fail, in order. \<open>only_links e s s'\<close>: from \<open>s\<close> to
  \<open>s'\<close> \<^verbatim>\<open>unlinkFunctions\<close> was not called, and the functions linked in \<open>s'\<close> are
  those of \<open>s\<close> followed by the ones the new calls linked.
\<close>

definition new_calls :: "gadget \<Rightarrow> gadget \<Rightarrow> event list" where
  "new_calls s s' = drop (length (calls s)) (calls s')"

definition extends :: "gadget \<Rightarrow> gadget \<Rightarrow> bool" where
  "extends s s' \<longleftrightarrow> calls s' = calls s @ new_calls s s'"

fun links_of :: "env \<Rightarrow> event list \<Rightarrow> (nat \<times> string) list" where
  "links_of e [] = []"
| "links_of e (EvLink n i # c) =
     (if link_fails e n i then links_of e c else (i, n) # links_of e c)"
| "links_of e (ev # c) = links_of e c"

definition only_links :: "env \<Rightarrow> gadget \<Rightarrow> gadget \<Rightarrow> bool" where
  "only_links e s s' \<longleftrightarrow>
     extends s s' \<and> EvUnlinkFunctions \<notin> set (new_calls s s') \<and>
     linked s' = linked s @ links_of e (new_calls s s')"

subsection \<open>Sample platforms\<close>

text \<open>
  \<open>quiet\<close> is a platform on which no collaborator fails: only the controller property
  is set, there is no esoc directory, the generic collaborator links the MTP node for MTP
  and nothing else, and the monitor signals pull-up in time. \<open>idle\<close> is the gadget
  before the first cycle. The others vary \<open>quiet\<close>: an external modem (\<^verbatim>\<open>esoc0\<close>
  names an MDM) with a machine string that carries the marker \<^verbatim>\<open>SDA\<close>; every
  \<^verbatim>\<open>linkFunction\<close> at index 2 failing; no pull-up signal before the timeout; the vendor
  property \<^verbatim>\<open>diag,qdss,dpl\<close>, which is not a key of \<open>supported_compositions\<close>; the
  vendor property \<^verbatim>\<open>diag,foo\<close>, whose second token is no function name.
\<close>

definition quiet :: env where
  "quiet = \<lparr>props = (\<lambda>k. if k = USB_CONTROLLER_PROP then ''a600000.dwc3'' else []),
     esoc_dir = None, soc_machine = None,
     link_fails = (\<lambda>n i. False), setvidpid_fails = (\<lambda>v p. False),
     reset_fails = False, pullup_write_fails = False,
     generic_nodes = (\<lambda>f. if f AND GF_MTP \<noteq> 0 then [''ffs.mtp''] else []),
     generic_ffs = (\<lambda>f. f AND GF_MTP \<noteq> 0), wait_pullup = True\<rparr>"

definition idle :: gadget where
  "idle = \<lparr>mCurrentUsbFunctions = 0, mCurrentUsbFunctionsApplied = False, linked = [],
     vidpid = None, pullup = None, monitorRunning = False, calls = []\<rparr>"

definition sda_with_mdm :: env where
  "sda_with_mdm = quiet\<lparr>esoc_dir := Some [(''.'', None), (''esoc0'', Some ''MDM9x55'')],
     soc_machine := Some ''SDA845''\<rparr>"

definition link_fails_at_2 :: env where
  "link_fails_at_2 = quiet\<lparr>link_fails := (\<lambda>n i. i = 2)\<rparr>"

definition never_pulled_up :: env where
  "never_pulled_up = quiet\<lparr>wait_pullup := False\<rparr>"

definition override_diag_qdss_dpl :: env where
  "override_diag_qdss_dpl =
     quiet\<lparr>props := (\<lambda>k. if k = VENDOR_USB_PROP then ''diag,qdss,dpl'' else props quiet k)\<rparr>"

definition override_diag_foo :: env where
  "override_diag_foo =
     quiet\<lparr>props := (\<lambda>k. if k = VENDOR_USB_PROP then ''diag,foo'' else props quiet k)\<rparr>"

section \<open>Facts about the operations\<close>

lemma func_node_Some: "map_of supported_funcs t = Some f \<Longrightarrow> func_node e t = f e"
  by (simp add: func_node_def)

lemma linkFunction_fst: "fst (linkFunction e n i s) = (if link_fails e n i then - 1 else 0)"
  by (simp add: linkFunction_def Let_def)

lemma linkFunction_linked:
  "linked (snd (linkFunction e n i s)) = (if link_fails e n i then linked s else linked s @ [(i, n)])"
  by (simp add: linkFunction_def Let_def called_def)

lemma linkFunction_calls: "calls (snd (linkFunction e n i s)) = calls s @ [EvLink n i]"
  by (simp add: linkFunction_def Let_def called_def)

lemma linkFunction_frame:
  "mCurrentUsbFunctions (snd (linkFunction e n i s)) = mCurrentUsbFunctions s"
  "mCurrentUsbFunctionsApplied (snd (linkFunction e n i s)) = mCurrentUsbFunctionsApplied s"
  "pullup (snd (linkFunction e n i s)) = pullup s"
  "vidpid (snd (linkFunction e n i s)) = vidpid s"
  "monitorRunning (snd (linkFunction e n i s)) = monitorRunning s"
  by (simp_all add: linkFunction_def Let_def called_def)

lemma addFunctions_skip:
  "addFunctions e (''adb'' # ts) i False s = addFunctions e ts i False s"
  by simp

lemma addFunctions_unsupported:
  "t \<noteq> ''adb'' \<Longrightarrow> map_of supported_funcs t = None \<Longrightarrow>
   addFunctions e (t # ts) i False s = (- 1, i, s)"
  by simp

lemma addFunctions_link:
  "t \<noteq> ''adb'' \<Longrightarrow> map_of supported_funcs t = Some f \<Longrightarrow>
   addFunctions e (t # ts) i False s =
     (if link_fails e (f e) i then (- 1, Suc i, snd (linkFunction e (f e) i s))
      else addFunctions e ts (Suc i) False (snd (linkFunction e (f e) i s)))"
  by (simp add: linkFunction_def Let_def)

lemma addFunctions_ok_fst:
  assumes "\<forall>n i. \<not> link_fails e n i"
  shows "\<forall>t\<in>set ts. t \<noteq> ''adb'' \<longrightarrow> map_of supported_funcs t \<noteq> None \<Longrightarrow>
     fst (addFunctions e ts i False s) = 0"
  using assms
  by (induction ts arbitrary: i s) (auto simp: linkFunction_def Let_def split: option.splits)

lemma addFunctions_ok_idx:
  assumes "\<forall>n i. \<not> link_fails e n i"
  shows "\<forall>t\<in>set ts. t \<noteq> ''adb'' \<longrightarrow> map_of supported_funcs t \<noteq> None \<Longrightarrow>
     fst (snd (addFunctions e ts i False s)) = i + length (filter (\<lambda>t. t \<noteq> ''adb'') ts)"
  using assms
  by (induction ts arbitrary: i s) (auto simp: linkFunction_def Let_def split: option.splits)

lemma addFunctions_ok_linked:
  assumes "\<forall>n i. \<not> link_fails e n i"
  shows "\<forall>t\<in>set ts. t \<noteq> ''adb'' \<longrightarrow> map_of supported_funcs t \<noteq> None \<Longrightarrow>
     linked (snd (snd (addFunctions e ts i False s))) =
       linked s @ zip [i..<i + length (filter (\<lambda>t. t \<noteq> ''adb'') ts)]
                      (map (func_node e) (filter (\<lambda>t. t \<noteq> ''adb'') ts))"
  using assms
proof (induction ts arbitrary: i s)
  case Nil
  then show ?case by simp
next
  case (Cons t ts)
  show ?case
  proof (cases "t = ''adb''")
    case True
    with Cons show ?thesis by simp
  next
    case False
    with Cons.prems obtain f where f: "map_of supported_funcs t = Some f" by auto
    have "linked (snd (snd (addFunctions e (t # ts) i False s))) =
          linked (snd (snd (addFunctions e ts (Suc i) False (snd (linkFunction e (f e) i s)))))"
      using False f Cons.prems(2) by (simp add: addFunctions_link del: addFunctions.simps)
    also have "\<dots> = linked (snd (linkFunction e (f e) i s)) @
        zip [Suc i..<Suc i + length (filter (\<lambda>t. t \<noteq> ''adb'') ts)]
            (map (func_node e) (filter (\<lambda>t. t \<noteq> ''adb'') ts))"
      using Cons.IH Cons.prems by simp
    finally show ?thesis
      using False f Cons.prems(2) func_node_Some [OF f, of e]
      by (simp add: linkFunction_linked upt_conv_Cons del: upt_Suc addFunctions.simps)
  qed
qed

lemma addFunctions_frame:
  "mCurrentUsbFunctions (snd (snd (addFunctions e ts i adb s))) = mCurrentUsbFunctions s \<and>
   mCurrentUsbFunctionsApplied (snd (snd (addFunctions e ts i adb s))) = mCurrentUsbFunctionsApplied s \<and>
   pullup (snd (snd (addFunctions e ts i adb s))) = pullup s \<and>
   vidpid (snd (snd (addFunctions e ts i adb s))) = vidpid s \<and>
   monitorRunning (snd (snd (addFunctions e ts i adb s))) = monitorRunning s"
  by (induction ts arbitrary: i s)
     (auto simp: linkFunction_def Let_def called_def split: option.splits)

lemma tokens_defaults:
  "tokens [] ''rndis,diag,diag_mdm,qdss,qdss_mdm,serial_cdev,dpl,adb'' =
     [''rndis'', ''diag'', ''diag_mdm'', ''qdss'', ''qdss_mdm'', ''serial_cdev'', ''dpl'', ''adb'']"
  "tokens [] ''rndis,diag,qdss,serial_cdev,dpl,adb'' =
     [''rndis'', ''diag'', ''qdss'', ''serial_cdev'', ''dpl'', ''adb'']"
  "tokens [] ''rndis,adb'' = [''rndis'', ''adb'']"
  "tokens [] ''diag,diag_mdm,qdss,qdss_mdm,serial_cdev,dpl,rmnet,adb'' =
     [''diag'', ''diag_mdm'', ''qdss'', ''qdss_mdm'', ''serial_cdev'', ''dpl'', ''rmnet'', ''adb'']"
  "tokens [] ''diag,serial_cdev,rmnet,dpl,qdss,adb'' =
     [''diag'', ''serial_cdev'', ''rmnet'', ''dpl'', ''qdss'', ''adb'']"
  "tokens [] ''diag,adb'' = [''diag'', ''adb'']"
  by simp_all

lemma rows_defaults:
  "map_of supported_compositions ''rndis,diag,diag_mdm,qdss,qdss_mdm,serial_cdev,dpl,adb'' =
     Some (''0x05C6'', ''0x90E7'')"
  "map_of supported_compositions ''rndis,diag,qdss,serial_cdev,dpl,adb'' =
     Some (''0x05C6'', ''0x90E9'')"
  "map_of supported_compositions ''rndis,adb'' = Some (''0x05C6'', ''0x9024'')"
  "map_of supported_compositions ''diag,diag_mdm,qdss,qdss_mdm,serial_cdev,dpl,rmnet,adb'' =
     Some (''0x05C6'', ''0x90E5'')"
  "map_of supported_compositions ''diag,serial_cdev,rmnet,dpl,qdss,adb'' =
     Some (''0x05C6'', ''0x90DB'')"
  "map_of supported_compositions ''diag,adb'' = Some (''0x05C6'', ''0x901D'')"
  by (simp_all add: supported_compositions_def)

lemma funcs_defaults:
  "map_of supported_funcs ''rndis'' \<noteq> None" "map_of supported_funcs ''diag'' \<noteq> None"
  "map_of supported_funcs ''diag_mdm'' \<noteq> None" "map_of supported_funcs ''qdss'' \<noteq> None"
  "map_of supported_funcs ''qdss_mdm'' \<noteq> None" "map_of supported_funcs ''serial_cdev'' \<noteq> None"
  "map_of supported_funcs ''dpl'' \<noteq> None" "map_of supported_funcs ''rmnet'' \<noteq> None"
  "map_of supported_funcs ''adb'' \<noteq> None"
  by (simp_all add: supported_funcs_def)

lemma lookupAndSetVidPid_ok:
  "map_of supported_compositions cmp = Some (v, p) \<Longrightarrow> \<not> setvidpid_fails e v p \<Longrightarrow>
   lookupAndSetVidPid e cmp s = (0, (called (EvSetVidPid v p) s)\<lparr>vidpid := Some (v, p)\<rparr>)"
  by (simp add: lookupAndSetVidPid_def setVidPid_def Let_def)

lemma lookupAndSetVidPid_unsupported:
  "map_of supported_compositions cmp = None \<Longrightarrow> lookupAndSetVidPid e cmp s = (- 1, s)"
  by (simp add: lookupAndSetVidPid_def)

lemma lookupAndSetVidPid_frame:
  "mCurrentUsbFunctions (snd (lookupAndSetVidPid e cmp s)) = mCurrentUsbFunctions s \<and>
   mCurrentUsbFunctionsApplied (snd (lookupAndSetVidPid e cmp s)) = mCurrentUsbFunctionsApplied s \<and>
   pullup (snd (lookupAndSetVidPid e cmp s)) = pullup s \<and>
   linked (snd (lookupAndSetVidPid e cmp s)) = linked s \<and>
   monitorRunning (snd (lookupAndSetVidPid e cmp s)) = monitorRunning s"
  by (simp add: lookupAndSetVidPid_def setVidPid_def Let_def called_def split: option.splits)

lemma link_comp_ok:
  assumes toks: "\<forall>t\<in>set (tokens [] cmp). t \<noteq> ''adb'' \<longrightarrow> map_of supported_funcs t \<noteq> None"
    and row: "map_of supported_compositions cmp = Some (v, p)"
    and nolink: "\<forall>n i. \<not> link_fails e n i"
    and novp: "\<not> setvidpid_fails e v p"
  shows "fst (link_comp e cmp i s) = SUCCESS"
    and "fst (snd (link_comp e cmp i s)) = i + length (filter (\<lambda>t. t \<noteq> ''adb'') (tokens [] cmp))"
    and "linked (snd (snd (link_comp e cmp i s))) =
           linked s @ zip [i..<i + length (filter (\<lambda>t. t \<noteq> ''adb'') (tokens [] cmp))]
                          (map (func_node e) (filter (\<lambda>t. t \<noteq> ''adb'') (tokens [] cmp)))"
    and "vidpid (snd (snd (link_comp e cmp i s))) = Some (v, p)"
proof -
  let ?a = "addFunctions e (tokens [] cmp) i False s"
  have a0: "fst ?a = 0" using addFunctions_ok_fst [OF nolink toks] .
  have lc: "link_comp e cmp i s =
      (SUCCESS, fst (snd ?a), (called (EvSetVidPid v p) (snd (snd ?a)))\<lparr>vidpid := Some (v, p)\<rparr>)"
    using a0 lookupAndSetVidPid_ok [OF row novp]
    by (simp add: link_comp_def addFunctionsFromPropString_def case_prod_beta)
  show "fst (link_comp e cmp i s) = SUCCESS" by (simp add: lc)
  show "fst (snd (link_comp e cmp i s)) = i + length (filter (\<lambda>t. t \<noteq> ''adb'') (tokens [] cmp))"
    using addFunctions_ok_idx [OF nolink toks] by (simp add: lc)
  show "linked (snd (snd (link_comp e cmp i s))) =
           linked s @ zip [i..<i + length (filter (\<lambda>t. t \<noteq> ''adb'') (tokens [] cmp))]
                          (map (func_node e) (filter (\<lambda>t. t \<noteq> ''adb'') (tokens [] cmp)))"
    using addFunctions_ok_linked [OF nolink toks] by (simp add: lc called_def)
  show "vidpid (snd (snd (link_comp e cmp i s))) = Some (v, p)" by (simp add: lc)
qed

lemma default_tokens_supported:
  "\<forall>t\<in>set (tokens [] (rndis_adb_comp m)). map_of supported_funcs t \<noteq> None"
  "\<forall>t\<in>set (tokens [] (adb_default_comp m)). map_of supported_funcs t \<noteq> None"
proof -
  show "\<forall>t\<in>set (tokens [] (rndis_adb_comp m)). map_of supported_funcs t \<noteq> None"
    by (cases m) (simp_all only: rndis_adb_comp.simps tokens_defaults list.set ball_simps
          funcs_defaults not_False_eq_True simp_thms)
  show "\<forall>t\<in>set (tokens [] (adb_default_comp m)). map_of supported_funcs t \<noteq> None"
    by (cases m) (simp_all only: adb_default_comp.simps tokens_defaults list.set ball_simps
          funcs_defaults not_False_eq_True simp_thms)
qed

lemma default_rows_supported:
  "map_of supported_compositions (rndis_adb_comp m) \<noteq> None"
  "map_of supported_compositions (adb_default_comp m) \<noteq> None"
proof -
  show "map_of supported_compositions (rndis_adb_comp m) \<noteq> None"
    by (cases m) (simp_all only: rndis_adb_comp.simps rows_defaults option.distinct
          not_False_eq_True)
  show "map_of supported_compositions (adb_default_comp m) \<noteq> None"
    by (cases m) (simp_all only: adb_default_comp.simps rows_defaults option.distinct
          not_False_eq_True)
qed

lemma gf_bits:
  "(GF_RNDIS OR GF_ADB) AND GF_RNDIS \<noteq> 0" "(GF_RNDIS OR GF_ADB) AND GF_ADB \<noteq> 0"
  "GF_ADB AND GF_RNDIS = 0" "GF_ADB AND GF_ADB \<noteq> 0"
  by (simp_all add: GF_RNDIS_def GF_ADB_def)

lemma enable_adb_ok:
  "functions AND GF_ADB \<noteq> 0 \<Longrightarrow> \<not> link_fails e ''ffs.adb'' i \<Longrightarrow>
   enable_adb e functions ffs i s = (SUCCESS, True, snd (linkFunction e ''ffs.adb'' i s))"
  by (simp add: enable_adb_def addAdb_def linkFunction_def Let_def)

lemma pull_up_frame:
  "linked (snd (pull_up e functions callback gadgetName ffs s)) = linked s \<and>
   vidpid (snd (pull_up e functions callback gadgetName ffs s)) = vidpid s \<and>
   mCurrentUsbFunctions (snd (pull_up e functions callback gadgetName ffs s)) =
     mCurrentUsbFunctions s"
  by (simp add: pull_up_def Let_def called_def functionsAppliedCallback_def)

lemma pull_up_monitor_status:
  "fst (pull_up e functions callback gadgetName True s) = SUCCESS"
  by (simp add: pull_up_def Let_def)

lemma setup_override_skip:
  "i \<noteq> 0 \<Longrightarrow> setup_override e functions mtype vendorProp i s = (SUCCESS, i, s)"
  by (simp add: setup_override_def)

lemma rndis_adb_internal_run:
  assumes rndis: "functions AND GF_RNDIS \<noteq> 0" and adb: "functions AND GF_ADB \<noteq> 0"
    and mt: "getModemType e = INTERNAL"
    and udc: "GetProperty e USB_CONTROLLER_PROP [] \<noteq> []"
    and nolink: "\<forall>n i. \<not> link_fails e n i"
    and novp: "\<forall>v p. \<not> setvidpid_fails e v p"
  shows "fst (setupFunctions e functions callback s) = SUCCESS \<and>
         linked (snd (setupFunctions e functions callback s)) =
           linked s @
           [(0, func_node e ''rndis''), (1, func_node e ''diag''), (2, func_node e ''qdss''),
            (3, func_node e ''serial_cdev''), (4, func_node e ''dpl''), (5, ''ffs.adb'')] \<and>
         vidpid (snd (setupFunctions e functions callback s)) =
           map_of supported_compositions ''rndis,diag,qdss,serial_cdev,dpl,adb''"
proof -
  let ?key = "''rndis,diag,qdss,serial_cdev,dpl,adb''"
  have toks: "\<forall>t\<in>set (tokens [] ?key). t \<noteq> ''adb'' \<longrightarrow> map_of supported_funcs t \<noteq> None"
    by (simp add: tokens_defaults funcs_defaults del: not_None_eq)
  have novp': "\<not> setvidpid_fails e ''0x05C6'' ''0x90E9''" using novp by simp
  note lc = link_comp_ok [OF toks rows_defaults(2) nolink novp', of 0 s]
  obtain st i1 sr where r: "link_comp e ?key 0 s = (st, i1, sr)"
    by (cases "link_comp e ?key 0 s") auto
  have r1: "st = SUCCESS" using lc(1) by (simp add: r)
  have r2: "i1 = 5" using lc(2) by (simp add: r tokens_defaults)
  have r3: "linked sr = linked s @
           [(0, func_node e ''rndis''), (1, func_node e ''diag''), (2, func_node e ''qdss''),
            (3, func_node e ''serial_cdev''), (4, func_node e ''dpl'')]"
    using lc(3) by (simp add: r tokens_defaults upt_conv_Cons del: upt_Suc)
  have r4: "vidpid sr = Some (''0x05C6'', ''0x90E9'')" using lc(4) by (simp add: r)
  have nl: "\<not> link_fails e ''ffs.adb'' 5" using nolink by simp
  have s1: "setup_first e functions INTERNAL s = (SUCCESS, False, 5, sr)"
    using rndis adb r r1 r2 by (simp add: setup_first_def)
  have s3: "enable_adb e functions False 5 sr =
              (SUCCESS, True, snd (linkFunction e ''ffs.adb'' 5 sr))"
    by (rule enable_adb_ok [OF adb nl])
  have run: "setupFunctions e functions callback s =
      pull_up e functions callback (GetProperty e USB_CONTROLLER_PROP []) True
        (snd (linkFunction e ''ffs.adb'' 5 sr))"
    unfolding setupFunctions_def Let_def mt using udc
    by (simp add: s1 setup_override_skip s3)
  show ?thesis
    unfolding run
    using nl by (simp add: pull_up_frame pull_up_monitor_status linkFunction_linked
          linkFunction_frame r3 r4 rows_defaults)
qed

lemma find_from_prefix: "find_from (pat @ v) pat n = Some n"
proof (cases "pat @ v")
  case Nil
  then show ?thesis by simp
next
  case (Cons a l)
  have "take (length pat) (pat @ v) = pat" by simp
  then show ?thesis unfolding Cons by simp
qed

lemma find_from_contains: "str = u @ pat @ v \<Longrightarrow> find_from str pat n \<noteq> None"
proof (induction u arbitrary: str n)
  case Nil
  then show ?case by (simp add: find_from_prefix)
next
  case (Cons a u)
  then show ?case by auto
qed

lemma find_from_bound: "find_from str pat n = Some k \<Longrightarrow> k + length pat \<le> n + length str"
proof (induction str arbitrary: n)
  case Nil
  then show ?case by (simp split: if_splits)
next
  case (Cons c cs)
  show ?case
  proof (cases "take (length pat) (c # cs) = pat")
    case True
    then have "length (take (length pat) (c # cs)) = length pat" by simp
    then have "length pat \<le> length (c # cs)" by simp
    with True Cons.prems show ?thesis by simp
  next
    case False
    with Cons.prems have "find_from cs pat (Suc n) = Some k" by simp
    from Cons.IH [OF this] show ?thesis by simp
  qed
qed

lemma find_last_of_from_last:
  "str \<noteq> [] \<Longrightarrow> last str = ch \<Longrightarrow> find_last_of_from str ch n = Some (n + length str - 1)"
proof (induction str arbitrary: n)
  case Nil
  then show ?case by simp
next
  case (Cons c cs)
  then show ?case by (cases "cs = []") auto
qed

lemma word_of_nat_not_npos: "k < 2 ^ 64 - 1 \<Longrightarrow> (word_of_nat k :: 64 word) \<noteq> npos"
proof
  assume k: "k < 2 ^ 64 - 1" and eq: "(word_of_nat k :: 64 word) = npos"
  have "unat (word_of_nat k :: 64 word) = k"
    using k by (simp add: of_nat_inverse)
  moreover have "unat (npos :: 64 word) = 2 ^ 64 - 1"
    by (simp add: npos_def unsigned_minus_1_eq_mask mask_eq_exp_minus_1)
  ultimately show False using k eq by simp
qed

lemma str_find_contains:
  assumes "str = u @ pat @ v" and "pat \<noteq> []" and "length str < 2 ^ 64"
  shows "str_find str pat \<noteq> npos"
proof -
  from find_from_contains [OF assms(1)] obtain k where k: "find_from str pat 0 = Some k"
    by auto
  from find_from_bound [OF k] assms(2) have "k < length str" by (cases pat) auto
  with assms(3) have "k < 2 ^ 64 - 1" by simp
  then show ?thesis by (simp add: str_find_def size_t_of_def k word_of_nat_not_npos)
qed

lemma str_find_last_of_last:
  assumes "str \<noteq> []" and "last str = ch"
  shows "str_find_last_of str ch = word_of_nat (length str) - 1"
proof -
  obtain m where m: "length str = Suc m" using assms(1) by (cases str) auto
  show ?thesis
    using find_last_of_from_last [OF assms, of 0]
    by (simp add: str_find_last_of_def size_t_of_def m)
qed

lemma scan_esoc_cases: "scan_esoc entries = INTERNAL \<or> scan_esoc entries = EXTERNAL"
  by (induction entries rule: scan_esoc.induct) (auto split: option.splits)

lemma unpulled_refl: "unpulled s s"
  by (simp add: unpulled_def)

lemma unpulled_trans: "unpulled s t \<Longrightarrow> unpulled t u \<Longrightarrow> unpulled s u"
  by (simp add: unpulled_def)

lemma unpulled_called: "unpulled s (called ev s)"
  by (simp add: unpulled_def called_def)

lemma unpulled_linkFunction: "unpulled s (snd (linkFunction e n i s))"
  by (simp add: unpulled_def linkFunction_def Let_def called_def)

lemma unpulled_unlinkFunctions: "unpulled s (unlinkFunctions s)"
  by (simp add: unpulled_def unlinkFunctions_def called_def)

lemma unpulled_setVidPid: "unpulled s (snd (setVidPid e v p s))"
  by (simp add: unpulled_def setVidPid_def Let_def called_def)

lemma unpulled_addFunctions: "unpulled s (snd (snd (addFunctions e ts i adb s)))"
  using addFunctions_frame [of e ts i adb s] by (simp add: unpulled_def)

lemma unpulled_lookupAndSetVidPid: "unpulled s (snd (lookupAndSetVidPid e cmp s))"
  using lookupAndSetVidPid_frame [of e cmp s] by (simp add: unpulled_def)

lemma unpulled_link_comp: "unpulled s (snd (snd (link_comp e cmp i s)))"
proof -
  obtain r i1 s1 where a: "addFunctionsFromPropString e cmp i False s = (r, i1, s1)"
    by (cases "addFunctionsFromPropString e cmp i False s") auto
  have u1: "unpulled s s1"
    using unpulled_addFunctions [where s = s and e = e and ts = "tokens [] cmp" and i = i
        and adb = False] a
    by (simp add: addFunctionsFromPropString_def)
  have u2: "unpulled s (snd (lookupAndSetVidPid e cmp s1))"
    by (rule unpulled_trans [OF u1 unpulled_lookupAndSetVidPid])
  show ?thesis using u1 u2 by (simp add: link_comp_def a case_prod_beta)
qed

lemma unpulled_linkNodes: "unpulled s (snd (snd (linkNodes e ns i s)))"
proof (induction ns arbitrary: i s)
  case Nil
  show ?case by (simp add: unpulled_refl)
next
  case (Cons n ns)
  obtain r s1 where l: "linkFunction e n i s = (r, s1)" by (cases "linkFunction e n i s") auto
  have u1: "unpulled s s1"
    using unpulled_linkFunction [where s = s and e = e and n = n and i = i] by (simp add: l)
  show ?case
    using u1 unpulled_trans [OF u1 Cons.IH [where s = s1 and i = "Suc i"]] by (simp add: l)
qed

lemma unpulled_setup_first: "unpulled s (snd (snd (snd (setup_first e functions mtype s))))"
proof -
  have a: "unpulled s (snd (snd (link_comp e (rndis_adb_comp mtype) 0 s)))"
    by (rule unpulled_link_comp)
  have b: "unpulled s (snd (linkFunction e (rndisFuncname e) 0 s))"
    by (rule unpulled_linkFunction)
  have c: "unpulled s (snd (snd (linkNodes e (generic_nodes e functions) 0 s)))"
    by (rule unpulled_linkNodes)
  show ?thesis
    using a b c
    by (simp add: setup_first_def addGenericAndroidFunctions_def case_prod_beta)
qed

lemma unpulled_setup_override:
  "unpulled s (snd (snd (setup_override e functions mtype vendorProp i s)))"
proof -
  let ?vp = "if str_find vendorProp ''adb'' = npos then vendorProp @ '',adb'' else vendorProp"
  obtain r i1 s1 where a: "addFunctionsFromPropString e ?vp i False s = (r, i1, s1)"
    by (cases "addFunctionsFromPropString e ?vp i False s") auto
  obtain r2 s2 where b: "lookupAndSetVidPid e ?vp s1 = (r2, s2)"
    by (cases "lookupAndSetVidPid e ?vp s1") auto
  have u1: "unpulled s s1"
    using unpulled_addFunctions [where s = s and e = e and ts = "tokens [] ?vp" and i = i
        and adb = False] a
    by (simp add: addFunctionsFromPropString_def)
  have u2: "unpulled s s2"
    using unpulled_trans [OF u1 unpulled_lookupAndSetVidPid [where s = s1 and e = e
        and cmp = ?vp]] by (simp add: b)
  have d1: "unpulled s (snd (snd (link_comp e (adb_default_comp mtype) 0 (unlinkFunctions s1))))"
    by (rule unpulled_trans [OF unpulled_trans [OF u1 unpulled_unlinkFunctions] unpulled_link_comp])
  have d2: "unpulled s (snd (snd (link_comp e (adb_default_comp mtype) 0 (unlinkFunctions s2))))"
    by (rule unpulled_trans [OF unpulled_trans [OF u2 unpulled_unlinkFunctions] unpulled_link_comp])
  show ?thesis
    unfolding setup_override_def Let_def a b prod.case
    using u2 d1 d2 by (simp add: unpulled_refl unpulled_link_comp)
qed

lemma unpulled_enable_adb: "unpulled s (snd (snd (enable_adb e functions ffs i s)))"
  using unpulled_linkFunction [where s = s and e = e and n = "''ffs.adb''" and i = i]
  by (simp add: enable_adb_def addAdb_def case_prod_beta unpulled_refl)

lemma enable_adb_ffs:
  "fst (snd (enable_adb e functions ffs i s)) = (functions AND GF_ADB \<noteq> 0 \<or> ffs)"
  by (simp add: enable_adb_def addAdb_def case_prod_beta)

lemma setup_first_ffs:
  "fst (snd (setup_first e functions mtype s)) =
     (functions AND GF_RNDIS = 0 \<and> generic_ffs e functions)"
  by (simp add: setup_first_def addGenericAndroidFunctions_def case_prod_beta)

lemma setupFunctions_shape:
  "\<exists>s3. unpulled s s3 \<and>
     (setupFunctions e functions callback s = (ERROR, s3) \<or>
      setupFunctions e functions callback s =
        pull_up e functions callback (GetProperty e USB_CONTROLLER_PROP [])
          (ffs_enabled e functions) s3)"
proof (cases "GetProperty e USB_CONTROLLER_PROP [] = []")
  case True
  then have "setupFunctions e functions callback s = (ERROR, s)"
    by (simp add: setupFunctions_def)
  then show ?thesis using unpulled_refl by blast
next
  case udc: False
  let ?m = "getModemType e"
  let ?vp = "GetProperty e VENDOR_USB_PROP (GetProperty e PERSIST_VENDOR_USB_PROP [])"
  obtain st1 ffs1 i1 s1 where p1: "setup_first e functions ?m s = (st1, ffs1, i1, s1)"
    by (cases "setup_first e functions ?m s") auto
  obtain st2 i2 s2 where p2: "setup_override e functions ?m ?vp i1 s1 = (st2, i2, s2)"
    by (cases "setup_override e functions ?m ?vp i1 s1") auto
  obtain st3 ffs3 s3 where p3: "enable_adb e functions ffs1 i2 s2 = (st3, ffs3, s3)"
    by (cases "enable_adb e functions ffs1 i2 s2") auto
  have "unpulled s (snd (snd (snd (setup_first e functions ?m s))))"
    by (rule unpulled_setup_first)
  then have u1: "unpulled s s1" by (simp add: p1)
  have "unpulled s1 (snd (snd (setup_override e functions ?m ?vp i1 s1)))"
    by (rule unpulled_setup_override)
  then have u2: "unpulled s s2" using unpulled_trans [OF u1] by (simp add: p2)
  have "unpulled s2 (snd (snd (enable_adb e functions ffs1 i2 s2)))"
    by (rule unpulled_enable_adb)
  then have u3: "unpulled s s3" using unpulled_trans [OF u2] by (simp add: p3)
  have f1: "ffs1 = (functions AND GF_RNDIS = 0 \<and> generic_ffs e functions)"
    using setup_first_ffs [of e "functions" "getModemType e" s] by (simp add: p1)
  have "ffs3 = (functions AND GF_ADB \<noteq> 0 \<or> ffs1)"
    using enable_adb_ffs [of e "functions" ffs1 i2 s2] by (simp add: p3)
  then have f3: "ffs3 = ffs_enabled e functions"
    by (simp add: f1 ffs_enabled_def)
  have run: "setupFunctions e functions callback s =
      (if st1 \<noteq> SUCCESS then (ERROR, s1)
       else if st2 \<noteq> SUCCESS then (ERROR, s2)
       else if st3 \<noteq> SUCCESS then (ERROR, s3)
       else pull_up e functions callback (GetProperty e USB_CONTROLLER_PROP [])
              (ffs_enabled e functions) s3)"
    unfolding setupFunctions_def Let_def using udc by (simp add: p1 p2 p3 f3)
  show ?thesis using u1 u2 u3 unfolding run by auto
qed

lemmas model_defs =
  setCurrentUsbFunctions_def tearDownGadget_def resetGadget_def validateAndSetVidPid_def
  setupFunctions_def setup_first_def setup_override_def enable_adb_def pull_up_def
  link_comp_def addFunctionsFromPropString_def lookupAndSetVidPid_def
  addGenericAndroidFunctions_def addAdb_def linkFunction_def unlinkFunctions_def
  setVidPid_def report_error_def called_def functionsAppliedCallback_def
  getCurrentUsbFunctions_def getModemType_def GetProperty_def rndisFuncname_def
  supported_funcs_def str_find_def str_find_last_of_def size_t_of_def npos_def

lemmas name_defs =
  GF_NONE_def GF_ADB_def GF_ACCESSORY_def GF_MTP_def GF_MIDI_def GF_PTP_def GF_RNDIS_def
  GF_AUDIO_SOURCE_def USB_CONTROLLER_PROP_def DIAG_FUNC_NAME_PROP_def RNDIS_FUNC_NAME_PROP_def
  RMNET_FUNC_NAME_PROP_def RMNET_INST_NAME_PROP_def DPL_INST_NAME_PROP_def VENDOR_USB_PROP_def
  PERSIST_VENDOR_USB_PROP_def QDSS_INST_NAME_PROP_def


lemma run_never_pulled_up:
  "setCurrentUsbFunctions never_pulled_up GF_ADB True idle =
     \<lparr>mCurrentUsbFunctions = 1, mCurrentUsbFunctionsApplied = False,
      linked = [(0, ''diag.diag''), (1, ''cser.dun.0''), (2, ''gsi.rmnet''), (3, ''gsi.dpl''),
        (4, ''qdss.qdss''), (5, ''ffs.adb'')],
      vidpid = Some (''0x05C6'', ''0x90DB''), pullup = None, monitorRunning = True,
      calls = [EvResetGadget, EvSetVidPid ''0x18d1'' ''0x4ee7'', EvLink ''diag.diag'' 0,
        EvLink ''cser.dun.0'' 1, EvLink ''gsi.rmnet'' 2, EvLink ''gsi.dpl'' 3,
        EvLink ''qdss.qdss'' 4, EvSetVidPid ''0x05C6'' ''0x90DB'', EvLink ''ffs.adb'' 5,
        EvRegisterCallback, EvStartMonitor, EvCallback 1 ERROR]\<rparr>"
  by (simp add: model_defs name_defs never_pulled_up_def quiet_def idle_def Let_def
        rows_defaults tokens_defaults)

lemma pull_up_error:
  "fst (pull_up e functions callback gadgetName ffs s) \<noteq> SUCCESS \<Longrightarrow>
   unpulled s (snd (pull_up e functions callback gadgetName ffs s))"
  by (simp add: pull_up_def Let_def called_def unpulled_def split: if_splits)

lemma pull_up_reports:
  "fst (pull_up e functions True gadgetName ffs s) = SUCCESS \<Longrightarrow>
   \<exists>st. last (calls (snd (pull_up e functions True gadgetName ffs s))) = EvCallback functions st \<and>
        (st \<noteq> SUCCESS \<longrightarrow> unpulled s (snd (pull_up e functions True gadgetName ffs s)))"
  by (simp add: pull_up_def Let_def called_def unpulled_def functionsAppliedCallback_def
        split: if_splits)

lemma pull_up_timeout:
  "\<not> wait_pullup e \<Longrightarrow>
   pull_up e functions True gadgetName True s =
     (SUCCESS, called (EvCallback functions ERROR)
        ((called EvStartMonitor (called EvRegisterCallback s))\<lparr>monitorRunning := True\<rparr>))"
  by (simp add: pull_up_def Let_def)

lemma tearDownGadget_ok:
  "\<not> reset_fails e \<Longrightarrow>
   fst (tearDownGadget e s) = SUCCESS \<and>
   linked (snd (tearDownGadget e s)) = [] \<and> vidpid (snd (tearDownGadget e s)) = None \<and>
   pullup (snd (tearDownGadget e s)) = None \<and> \<not> monitorRunning (snd (tearDownGadget e s)) \<and>
   mCurrentUsbFunctions (snd (tearDownGadget e s)) = mCurrentUsbFunctions s \<and>
   mCurrentUsbFunctionsApplied (snd (tearDownGadget e s)) = mCurrentUsbFunctionsApplied s \<and>
   calls (snd (tearDownGadget e s)) =
     calls s @ EvResetGadget # (if monitorRunning s then [EvMonitorReset] else [])"
  by (simp add: tearDownGadget_def resetGadget_def Let_def called_def)

lemma tearDownGadget_members:
  "mCurrentUsbFunctions (snd (tearDownGadget e s)) = mCurrentUsbFunctions s \<and>
   mCurrentUsbFunctionsApplied (snd (tearDownGadget e s)) = mCurrentUsbFunctionsApplied s"
  by (simp add: tearDownGadget_def resetGadget_def Let_def called_def)

lemma unpulled_validateAndSetVidPid: "unpulled s (snd (validateAndSetVidPid e functions s))"
  by (simp add: validateAndSetVidPid_def unpulled_setVidPid unpulled_refl)

lemma last_report_error:
  "last (calls (report_error functions True status s)) = EvCallback functions status"
  by (simp add: report_error_def called_def)

lemma unpulled_report_error: "unpulled s (report_error functions callback status s)"
  by (simp add: report_error_def called_def unpulled_def)

text \<open>
  What a cycle with a callback leaves behind, from the state \<open>s1\<close> reached after a
  successful teardown: it ends with a callback, and when the status passed is not
  \<open>SUCCESS\<close> the members and the pull-up file are as they were in \<open>s1\<close>.
\<close>

lemma after_teardown:
  fixes e :: env and fs :: "64 word" and s1 :: gadget
  defines "s' \<equiv> (case validateAndSetVidPid e fs s1 of
            (status2, s2) \<Rightarrow>
              if status2 \<noteq> SUCCESS then report_error fs True status2 s2
              else (case setupFunctions e fs True s2 of
                (status3, s3) \<Rightarrow>
                  if status3 \<noteq> SUCCESS then report_error fs True status3 s3
                  else s3))"
  shows "\<exists>st. last (calls s') = EvCallback fs st \<and> (st \<noteq> SUCCESS \<longrightarrow> unpulled s1 s')"
proof -
  obtain status2 s2 where v: "validateAndSetVidPid e fs s1 = (status2, s2)"
    by (cases "validateAndSetVidPid e fs s1") auto
  have "unpulled s1 (snd (validateAndSetVidPid e fs s1))"
    by (rule unpulled_validateAndSetVidPid)
  then have u2: "unpulled s1 s2" by (simp add: v)
  show ?thesis
  proof (cases "status2 = SUCCESS")
    case False
    then have "s' = report_error fs True status2 s2" by (simp add: s'_def v)
    then show ?thesis
      using unpulled_trans [OF u2 unpulled_report_error] by (simp add: last_report_error)
  next
    case v_ok: True
    obtain status3 s3 where st: "setupFunctions e fs True s2 = (status3, s3)"
      by (cases "setupFunctions e fs True s2") auto
    from setupFunctions_shape [of s2 e fs True] obtain t where
      t: "unpulled s2 t" and
      sh: "setupFunctions e fs True s2 = (ERROR, t) \<or>
           setupFunctions e fs True s2 =
             pull_up e fs True (GetProperty e USB_CONTROLLER_PROP [])
               (ffs_enabled e fs) t"
      by blast
    show ?thesis
    proof (cases "status3 = SUCCESS")
      case False
      have "unpulled s2 s3"
        using sh
      proof
        assume "setupFunctions e fs True s2 = (ERROR, t)"
        with st t show ?thesis by simp
      next
        assume a: "setupFunctions e fs True s2 =
             pull_up e fs True (GetProperty e USB_CONTROLLER_PROP [])
               (ffs_enabled e fs) t"
        with st have pu: "pull_up e fs True (GetProperty e USB_CONTROLLER_PROP [])
               (ffs_enabled e fs) t = (status3, s3)" by simp
        with False have "fst (pull_up e fs True (GetProperty e USB_CONTROLLER_PROP [])
               (ffs_enabled e fs) t) \<noteq> SUCCESS" by simp
        from pull_up_error [OF this] have "unpulled t s3" by (simp add: pu)
        with t show ?thesis by (rule unpulled_trans)
      qed
      with u2 have "unpulled s1 s3" by (rule unpulled_trans)
      moreover have "s' = report_error fs True status3 s3"
        using False v_ok by (simp add: s'_def v st)
      ultimately show ?thesis
        using unpulled_trans [OF _ unpulled_report_error] by (simp add: last_report_error)
    next
      case True
      then have s': "s' = s3" using v_ok by (simp add: s'_def v st)
      from sh True st have a: "setupFunctions e fs True s2 =
             pull_up e fs True (GetProperty e USB_CONTROLLER_PROP [])
               (ffs_enabled e fs) t" by auto
      with st have pu: "pull_up e fs True (GetProperty e USB_CONTROLLER_PROP [])
               (ffs_enabled e fs) t = (status3, s3)" by simp
      with True have "fst (pull_up e fs True (GetProperty e USB_CONTROLLER_PROP [])
               (ffs_enabled e fs) t) = SUCCESS" by simp
      from pull_up_reports [OF this] obtain st' where
        l: "last (calls s3) = EvCallback fs st'" and
        u: "st' \<noteq> SUCCESS \<longrightarrow> unpulled t s3"
        by (auto simp: pu)
      have "st' \<noteq> SUCCESS \<longrightarrow> unpulled s1 s3"
        using u unpulled_trans [OF unpulled_trans [OF u2 t]] by blast
      with l show ?thesis unfolding s' by blast
    qed
  qed
qed

lemma run_setup_never_pulled_up:
  "setupFunctions never_pulled_up GF_ADB True idle =
     (SUCCESS,
      \<lparr>mCurrentUsbFunctions = 0, mCurrentUsbFunctionsApplied = False,
       linked = [(0, ''diag.diag''), (1, ''cser.dun.0''), (2, ''gsi.rmnet''), (3, ''gsi.dpl''),
         (4, ''qdss.qdss''), (5, ''ffs.adb'')],
       vidpid = Some (''0x05C6'', ''0x90DB''), pullup = None, monitorRunning = True,
       calls = [EvLink ''diag.diag'' 0, EvLink ''cser.dun.0'' 1, EvLink ''gsi.rmnet'' 2,
         EvLink ''gsi.dpl'' 3, EvLink ''qdss.qdss'' 4, EvSetVidPid ''0x05C6'' ''0x90DB'',
         EvLink ''ffs.adb'' 5, EvRegisterCallback, EvStartMonitor, EvCallback 1 ERROR]\<rparr>)"
  by (simp add: model_defs name_defs never_pulled_up_def quiet_def idle_def Let_def
        rows_defaults tokens_defaults)

lemma setupFunctions_member:
  "mCurrentUsbFunctions (snd (setupFunctions e fs callback s)) = mCurrentUsbFunctions s"
proof -
  from setupFunctions_shape [of s e fs callback] obtain t where
    t: "unpulled s t" and
    sh: "setupFunctions e fs callback s = (ERROR, t) \<or>
         setupFunctions e fs callback s =
           pull_up e fs callback (GetProperty e USB_CONTROLLER_PROP []) (ffs_enabled e fs) t"
    by blast
  from sh show ?thesis
  proof
    assume "setupFunctions e fs callback s = (ERROR, t)"
    with t show ?thesis by (simp add: unpulled_def)
  next
    assume "setupFunctions e fs callback s =
           pull_up e fs callback (GetProperty e USB_CONTROLLER_PROP []) (ffs_enabled e fs) t"
    with t show ?thesis by (simp add: unpulled_def pull_up_frame)
  qed
qed

lemma cycle_member:
  "mCurrentUsbFunctions (setCurrentUsbFunctions e fs callback s) = fs"
proof -
  let ?s0 = "s\<lparr>mCurrentUsbFunctions := fs, mCurrentUsbFunctionsApplied := False\<rparr>"
  obtain status s1 where td: "tearDownGadget e ?s0 = (status, s1)"
    by (cases "tearDownGadget e ?s0") auto
  have m1: "mCurrentUsbFunctions s1 = fs"
    using tearDownGadget_members [of e ?s0] by (simp add: td)
  obtain status2 s2 where v: "validateAndSetVidPid e fs s1 = (status2, s2)"
    by (cases "validateAndSetVidPid e fs s1") auto
  have "unpulled s1 (snd (validateAndSetVidPid e fs s1))"
    by (rule unpulled_validateAndSetVidPid)
  then have m2: "mCurrentUsbFunctions s2 = fs" using m1 by (simp add: v unpulled_def)
  obtain status3 s3 where st: "setupFunctions e fs callback s2 = (status3, s3)"
    by (cases "setupFunctions e fs callback s2") auto
  have m3: "mCurrentUsbFunctions s3 = fs"
    using setupFunctions_member [of e fs callback s2] m2 by (simp add: st)
  show ?thesis
    using m1 m2 m3
    by (simp add: setCurrentUsbFunctions_def Let_def td v st report_error_def called_def)
qed

lemma cycle_failed:
  assumes l: "last (calls (setCurrentUsbFunctions e fs True s)) = EvCallback fs status"
    and ns: "status \<noteq> SUCCESS"
  shows "\<not> mCurrentUsbFunctionsApplied (setCurrentUsbFunctions e fs True s) \<and>
         (\<not> reset_fails e \<longrightarrow> pullup (setCurrentUsbFunctions e fs True s) = None)"
proof -
  let ?s0 = "s\<lparr>mCurrentUsbFunctions := fs, mCurrentUsbFunctionsApplied := False\<rparr>"
  let ?s' = "setCurrentUsbFunctions e fs True s"
  show ?thesis
  proof (cases "reset_fails e")
    case True
    then have "?s' = report_error fs True ERROR (called EvResetGadget ?s0)"
      by (simp add: setCurrentUsbFunctions_def tearDownGadget_def resetGadget_def Let_def)
    then show ?thesis using True by (simp add: report_error_def called_def)
  next
    case False
    note td = tearDownGadget_ok [OF False, of ?s0]
    obtain st1 s1 where td1: "tearDownGadget e ?s0 = (st1, s1)"
      by (cases "tearDownGadget e ?s0") auto
    have st1: "st1 = SUCCESS" using td by (simp add: td1)
    have a1: "\<not> mCurrentUsbFunctionsApplied s1" and p1: "pullup s1 = None"
      using td by (simp_all add: td1)
    show ?thesis
    proof (cases "fs = GF_NONE")
      case True
      then have "?s' = called (EvCallback fs SUCCESS) s1"
        unfolding setCurrentUsbFunctions_def Let_def td1 st1 by simp
      then have "last (calls ?s') = EvCallback fs SUCCESS" by (simp add: called_def)
      with l ns show ?thesis by simp
    next
      case nz: False
      let ?t = "case validateAndSetVidPid e fs s1 of
            (status2, s2) \<Rightarrow>
              if status2 \<noteq> SUCCESS then report_error fs True status2 s2
              else (case setupFunctions e fs True s2 of
                (status3, s3) \<Rightarrow>
                  if status3 \<noteq> SUCCESS then report_error fs True status3 s3
                  else s3)"
      have eq: "?s' = ?t"
        unfolding setCurrentUsbFunctions_def Let_def td1 st1 using nz by simp
      from after_teardown [where e = e and fs = fs and ?s1.0 = s1] obtain st where
        st: "last (calls ?t) = EvCallback fs st" and u: "st \<noteq> SUCCESS \<longrightarrow> unpulled s1 ?t"
        by blast
      from st l have "st = status" unfolding eq by simp
      with u ns have "unpulled s1 ?t" by simp
      with a1 p1 show ?thesis unfolding eq by (simp add: unpulled_def)
    qed
  qed
qed

lemma adb_supported: "map_of supported_funcs ''adb'' = Some (\<lambda>e. ''ffs.adb'')"
  by (simp add: supported_funcs_def)

lemma addFunctions_fails_unsupported:
  "\<exists>t\<in>set ts. map_of supported_funcs t = None \<Longrightarrow> fst (addFunctions e ts i False s) \<noteq> 0"
proof (induction ts arbitrary: i s)
  case Nil
  then show ?case by simp
next
  case (Cons t ts)
  show ?case
  proof (cases "t = ''adb''")
    case True
    with Cons.prems have "\<exists>t\<in>set ts. map_of supported_funcs t = None"
      by (auto simp: adb_supported)
    from Cons.IH [OF this] True show ?thesis by simp
  next
    case na: False
    show ?thesis
    proof (cases "map_of supported_funcs t")
      case None
      with na show ?thesis by simp
    next
      case (Some f)
      with Cons.prems have rest: "\<exists>t\<in>set ts. map_of supported_funcs t = None" by auto
      show ?thesis
        using Cons.IH [OF rest]
        by (simp add: addFunctions_link [OF na Some] del: addFunctions.simps)
    qed
  qed
qed

lemma unlinkFunctions_linked: "linked (unlinkFunctions s) = []"
  by (simp add: unlinkFunctions_def)

lemma adb_default_tokens:
  "tokens [] (adb_default_comp m) =
     filter (\<lambda>t. t \<noteq> ''adb'') (tokens [] (adb_default_comp m)) @ [''adb'']"
  by (cases m) (simp_all add: tokens_defaults)

lemma func_node_adb: "func_node e ''adb'' = ''ffs.adb''"
  by (simp add: func_node_def adb_supported)

text \<open>
  Linking a default composition from index 0 on a configuration with no links, and then
  the ADB node, when no collaborator fails.
\<close>

lemma default_then_adb:
  assumes nolink: "\<forall>n i. \<not> link_fails e n i" and novp: "\<forall>v p. \<not> setvidpid_fails e v p"
    and empty: "linked s = []"
  shows "\<exists>k s1. link_comp e (adb_default_comp m) 0 s = (SUCCESS, k, s1) \<and>
           linked (snd (linkFunction e ''ffs.adb'' k s1)) =
             zip [0..<length (tokens [] (adb_default_comp m))]
                 (map (func_node e) (tokens [] (adb_default_comp m))) \<and>
           vidpid s1 = map_of supported_compositions (adb_default_comp m)"
proof -
  let ?c = "adb_default_comp m"
  let ?body = "filter (\<lambda>t. t \<noteq> ''adb'') (tokens [] ?c)"
  obtain v p where row: "map_of supported_compositions ?c = Some (v, p)"
    using default_rows_supported(2) [of m] by (cases "map_of supported_compositions ?c") auto
  have toks: "\<forall>t\<in>set (tokens [] ?c). t \<noteq> ''adb'' \<longrightarrow> map_of supported_funcs t \<noteq> None"
    using default_tokens_supported(2) [of m] by simp
  have nv: "\<not> setvidpid_fails e v p" using novp by simp
  note lc = link_comp_ok [OF toks row nolink nv, of 0 s]
  obtain st k s1 where r: "link_comp e ?c 0 s = (st, k, s1)"
    by (cases "link_comp e ?c 0 s") auto
  have st: "st = SUCCESS" using lc(1) by (simp add: r)
  have k: "k = length ?body" using lc(2) by (simp add: r)
  have l1: "linked s1 = zip [0..<length ?body] (map (func_node e) ?body)"
    using lc(3) by (simp add: r empty)
  have v1: "vidpid s1 = Some (v, p)" using lc(4) by (simp add: r)
  have nl: "\<not> link_fails e ''ffs.adb'' k" using nolink by simp
  have len: "length (tokens [] ?c) = Suc (length ?body)"
    using adb_default_tokens [of m] by (metis length_append_singleton)
  have "zip [0..<length (tokens [] ?c)] (map (func_node e) (tokens [] ?c)) =
        zip ([0..<length ?body] @ [length ?body]) (map (func_node e) ?body @ [''ffs.adb''])"
  proof -
    have "map (func_node e) (tokens [] ?c) = map (func_node e) (?body @ [''adb''])"
      using adb_default_tokens [of m] by simp
    then show ?thesis by (simp add: len func_node_adb)
  qed
  also have "\<dots> = zip [0..<length ?body] (map (func_node e) ?body) @ [(length ?body, ''ffs.adb'')]"
    by (simp add: zip_append)
  finally have z: "zip [0..<length (tokens [] ?c)] (map (func_node e) (tokens [] ?c)) =
      linked s1 @ [(k, ''ffs.adb'')]" by (simp add: l1 k)
  show ?thesis
    using nl by (simp add: r st linkFunction_linked z v1 row)
qed

lemma setup_first_generic_nothing:
  "functions AND GF_RNDIS = 0 \<Longrightarrow> generic_nodes e functions = [] \<Longrightarrow>
   setup_first e functions mtype s = (SUCCESS, generic_ffs e functions, 0, s)"
  by (simp add: setup_first_def addGenericAndroidFunctions_def)

lemma run_setup_override_diag_qdss_dpl:
  "setupFunctions override_diag_qdss_dpl GF_ADB True idle =
     (SUCCESS,
      \<lparr>mCurrentUsbFunctions = 0, mCurrentUsbFunctionsApplied = True,
       linked = [(0, ''diag.diag''), (1, ''qdss.qdss''), (2, ''gsi.dpl''), (3, ''ffs.adb'')],
       vidpid = Some (''0x05C6'', ''0x9104''), pullup = Some ''a600000.dwc3'',
       monitorRunning = True,
       calls = [EvLink ''diag.diag'' 0, EvLink ''qdss.qdss'' 1, EvLink ''gsi.dpl'' 2,
         EvSetVidPid ''0x05C6'' ''0x9104'', EvLink ''ffs.adb'' 3, EvRegisterCallback,
         EvStartMonitor, EvCallback 1 SUCCESS]\<rparr>)"
  by (simp add: model_defs name_defs override_diag_qdss_dpl_def quiet_def idle_def Let_def
        supported_compositions_def)

lemma gf_bits_adb_rndis:
  "(GF_ADB OR GF_RNDIS) AND GF_RNDIS \<noteq> 0" "(GF_ADB OR GF_RNDIS) AND GF_ADB \<noteq> 0"
  "GF_RNDIS AND GF_RNDIS \<noteq> 0" "GF_RNDIS AND GF_ADB = 0"
  "GF_ADB OR GF_RNDIS \<noteq> GF_NONE" "GF_RNDIS \<noteq> GF_NONE" "GF_ADB \<noteq> GF_NONE"
  by (simp_all add: GF_RNDIS_def GF_ADB_def GF_NONE_def)

lemma rndis_adb_body_nonempty:
  "length (filter (\<lambda>t. t \<noteq> ''adb'') (tokens [] (rndis_adb_comp m))) \<noteq> 0"
  by (cases m) (simp_all add: tokens_defaults)

text \<open>The ids left by \<^verbatim>\<open>setupFunctions\<close> on its three table-driven branches.\<close>

lemma rndis_adb_vidpid:
  assumes rndis: "functions AND GF_RNDIS \<noteq> 0" and adb: "functions AND GF_ADB \<noteq> 0"
    and udc: "GetProperty e USB_CONTROLLER_PROP [] \<noteq> []"
    and nolink: "\<forall>n i. \<not> link_fails e n i" and novp: "\<forall>v p. \<not> setvidpid_fails e v p"
  shows "fst (setupFunctions e functions callback s) = SUCCESS \<and>
         vidpid (snd (setupFunctions e functions callback s)) =
           map_of supported_compositions (rndis_adb_comp (getModemType e))"
proof -
  let ?c = "rndis_adb_comp (getModemType e)"
  obtain v p where row: "map_of supported_compositions ?c = Some (v, p)"
    using default_rows_supported(1) [of "getModemType e"]
    by (cases "map_of supported_compositions ?c") auto
  have toks: "\<forall>t\<in>set (tokens [] ?c). t \<noteq> ''adb'' \<longrightarrow> map_of supported_funcs t \<noteq> None"
    using default_tokens_supported(1) [of "getModemType e"] by simp
  have nv: "\<not> setvidpid_fails e v p" using novp by simp
  note lc = link_comp_ok [OF toks row nolink nv, of 0 s]
  obtain st k s1 where r: "link_comp e ?c 0 s = (st, k, s1)"
    by (cases "link_comp e ?c 0 s") auto
  have st: "st = SUCCESS" using lc(1) by (simp add: r)
  have k: "k \<noteq> 0" using lc(2) rndis_adb_body_nonempty [of "getModemType e"] by (simp add: r)
  have v1: "vidpid s1 = Some (v, p)" using lc(4) by (simp add: r)
  have nl: "\<not> link_fails e ''ffs.adb'' k" using nolink by simp
  have s1: "setup_first e functions (getModemType e) s = (SUCCESS, False, k, s1)"
    using rndis adb r st by (simp add: setup_first_def)
  have run: "setupFunctions e functions callback s =
      pull_up e functions callback (GetProperty e USB_CONTROLLER_PROP []) True
        (snd (linkFunction e ''ffs.adb'' k s1))"
    unfolding setupFunctions_def Let_def using udc
    by (simp add: s1 setup_override_skip [OF k] enable_adb_ok [OF adb nl])
  show ?thesis
    unfolding run
    by (simp add: pull_up_frame pull_up_monitor_status linkFunction_frame v1 row)
qed

lemma rndis_only_vidpid:
  assumes rndis: "functions AND GF_RNDIS \<noteq> 0" and adb: "functions AND GF_ADB = 0"
    and udc: "GetProperty e USB_CONTROLLER_PROP [] \<noteq> []"
    and nolink: "\<forall>n i. \<not> link_fails e n i" and pu: "\<not> pullup_write_fails e"
  shows "fst (setupFunctions e functions callback s) = SUCCESS \<and>
         vidpid (snd (setupFunctions e functions callback s)) = vidpid s"
proof -
  have nl: "\<not> link_fails e (rndisFuncname e) 0" using nolink by simp
  have s1: "setup_first e functions (getModemType e) s =
      (SUCCESS, False, 1, snd (linkFunction e (rndisFuncname e) 0 s))"
    using rndis adb nl by (simp add: setup_first_def linkFunction_def Let_def)
  have s3: "enable_adb e functions False i t = (SUCCESS, False, t)" for i t
    using adb by (simp add: enable_adb_def)
  have run: "setupFunctions e functions callback s =
      pull_up e functions callback (GetProperty e USB_CONTROLLER_PROP []) False
        (snd (linkFunction e (rndisFuncname e) 0 s))"
    unfolding setupFunctions_def Let_def using udc
    by (simp add: s1 setup_override_skip s3)
  show ?thesis
    unfolding run using pu
    by (simp add: pull_up_frame linkFunction_frame) (simp add: pull_up_def Let_def)
qed

lemma adb_only_vidpid:
  assumes adb: "functions AND GF_ADB \<noteq> 0" and nr: "functions AND GF_RNDIS = 0"
    and gen: "generic_nodes e functions = []"
    and udc: "GetProperty e USB_CONTROLLER_PROP [] \<noteq> []"
    and nolink: "\<forall>n i. \<not> link_fails e n i" and novp: "\<forall>v p. \<not> setvidpid_fails e v p"
    and vp: "vendorProp = GetProperty e VENDOR_USB_PROP (GetProperty e PERSIST_VENDOR_USB_PROP [])"
    and ov: "override =
        (if str_find vendorProp ''adb'' = npos then vendorProp @ '',adb'' else vendorProp)"
    and cmp: "cmp = (if vendorProp = [] then adb_default_comp (getModemType e) else override)"
    and toks: "\<forall>t\<in>set (tokens [] cmp). map_of supported_funcs t \<noteq> None"
    and row: "map_of supported_compositions cmp \<noteq> None"
  shows "fst (setupFunctions e functions callback s) = SUCCESS \<and>
         vidpid (snd (setupFunctions e functions callback s)) =
           map_of supported_compositions cmp"
proof -
  obtain v p where rowvp: "map_of supported_compositions cmp = Some (v, p)"
    using row by (cases "map_of supported_compositions cmp") auto
  have toks': "\<forall>t\<in>set (tokens [] cmp). t \<noteq> ''adb'' \<longrightarrow> map_of supported_funcs t \<noteq> None"
    using toks by simp
  have nv: "\<not> setvidpid_fails e v p" using novp by simp
  note lc = link_comp_ok [OF toks' rowvp nolink nv, of 0 s]
  obtain st k s1 where r: "link_comp e cmp 0 s = (st, k, s1)"
    by (cases "link_comp e cmp 0 s") auto
  have st: "st = SUCCESS" using lc(1) by (simp add: r)
  have v1: "vidpid s1 = Some (v, p)" using lc(4) by (simp add: r)
  have nl: "\<not> link_fails e ''ffs.adb'' k" using nolink by simp
  have so: "setup_override e functions (getModemType e) vendorProp 0 s = (SUCCESS, k, s1)"
  proof (cases "vendorProp = []")
    case True
    then show ?thesis using adb r st cmp by (simp add: setup_override_def)
  next
    case False
    then have c: "cmp = override" using cmp by simp
    obtain ra ia sa where a: "addFunctionsFromPropString e override 0 False s = (ra, ia, sa)"
      by (cases "addFunctionsFromPropString e override 0 False s") auto
    obtain rb sb where b: "lookupAndSetVidPid e override sa = (rb, sb)"
      by (cases "lookupAndSetVidPid e override sa") auto
    from r st have "ra = 0 \<and> rb = 0 \<and> ia = k \<and> sb = s1"
      unfolding link_comp_def c a b prod.case by (auto split: if_splits)
    then show ?thesis
      using adb False by (simp add: setup_override_def ov [symmetric] a b)
  qed
  have run: "setupFunctions e functions callback s =
      pull_up e functions callback (GetProperty e USB_CONTROLLER_PROP []) True
        (snd (linkFunction e ''ffs.adb'' k s1))"
    unfolding setupFunctions_def Let_def vp [symmetric] using udc
    by (simp add: setup_first_generic_nothing [OF nr gen] so enable_adb_ok [OF adb nl])
  show ?thesis
    unfolding run
    by (simp add: pull_up_frame pull_up_monitor_status linkFunction_frame v1 rowvp)
qed

lemma run_rndis_adb_quiet:
  "setCurrentUsbFunctions quiet (GF_ADB OR GF_RNDIS) True idle =
     \<lparr>mCurrentUsbFunctions = 33, mCurrentUsbFunctionsApplied = True,
      linked = [(0, ''rndis''), (1, ''diag.diag''), (2, ''qdss.qdss''), (3, ''cser.dun.0''),
        (4, ''gsi.dpl''), (5, ''ffs.adb'')],
      vidpid = Some (''0x05C6'', ''0x90E9''), pullup = Some ''a600000.dwc3'',
      monitorRunning = True,
      calls = [EvResetGadget, EvSetVidPid ''0x18d1'' ''0x4ee4'', EvLink ''rndis'' 0,
        EvLink ''diag.diag'' 1, EvLink ''qdss.qdss'' 2, EvLink ''cser.dun.0'' 3,
        EvLink ''gsi.dpl'' 4, EvSetVidPid ''0x05C6'' ''0x90E9'', EvLink ''ffs.adb'' 5,
        EvRegisterCallback, EvStartMonitor, EvCallback 33 SUCCESS]\<rparr>"
  by (simp add: model_defs name_defs quiet_def idle_def Let_def rows_defaults tokens_defaults)

lemma run_mtp_rndis_quiet:
  "setCurrentUsbFunctions quiet (GF_MTP OR GF_RNDIS) True idle =
     \<lparr>mCurrentUsbFunctions = 36, mCurrentUsbFunctionsApplied = False, linked = [],
      vidpid = None, pullup = None, monitorRunning = False,
      calls = [EvResetGadget, EvCallback 36 CONFIGURATION_NOT_SUPPORTED]\<rparr>"
  by (simp add: model_defs name_defs quiet_def idle_def Let_def)

lemma adb_free_refl: "adb_free s s"
  by (simp add: adb_free_def)

lemma adb_free_trans: "adb_free s t \<Longrightarrow> adb_free t u \<Longrightarrow> adb_free s u"
  by (simp add: adb_free_def)

lemma adb_free_linkFunction: "n \<noteq> ''ffs.adb'' \<Longrightarrow> adb_free s (snd (linkFunction e n i s))"
  by (simp add: adb_free_def adb_links_def linkFunction_def Let_def called_def)

lemma adb_free_unlinkFunctions: "adb_free s (unlinkFunctions s)"
  by (simp add: adb_free_def adb_links_def unlinkFunctions_def called_def)

lemma adb_free_lookupAndSetVidPid: "adb_free s (snd (lookupAndSetVidPid e cmp s))"
  by (simp add: adb_free_def adb_links_def lookupAndSetVidPid_def setVidPid_def Let_def
        called_def split: option.splits)

lemma lined_up_linkFunction:
  "lined_up i s \<Longrightarrow> \<not> link_fails e n i \<Longrightarrow> lined_up (Suc i) (snd (linkFunction e n i s))"
  by (simp add: lined_up_def linkFunction_def Let_def called_def)

lemma lined_up_unlinkFunctions: "lined_up 0 (unlinkFunctions s)"
  by (simp add: lined_up_def unlinkFunctions_def)

lemma lined_up_lookupAndSetVidPid:
  "lined_up i s \<Longrightarrow> lined_up i (snd (lookupAndSetVidPid e cmp s))"
  using lookupAndSetVidPid_frame [of e cmp s] by (simp add: lined_up_def)

lemma addFunctions_adb_free:
  assumes al: "\<forall>t. t \<noteq> ''adb'' \<longrightarrow> func_node e t \<noteq> ''ffs.adb''"
  shows "adb_free s (snd (snd (addFunctions e ts i False s)))"
proof (induction ts arbitrary: i s)
  case Nil
  show ?case by (simp add: adb_free_refl)
next
  case (Cons t ts)
  show ?case
  proof (cases "t = ''adb''")
    case True
    then show ?thesis using Cons.IH by simp
  next
    case na: False
    show ?thesis
    proof (cases "map_of supported_funcs t")
      case None
      with na show ?thesis by (simp add: adb_free_refl)
    next
      case (Some f)
      have "f e \<noteq> ''ffs.adb''" using al na func_node_Some [OF Some, of e] by auto
      then have a: "adb_free s (snd (linkFunction e (f e) i s))" by (rule adb_free_linkFunction)
      show ?thesis
        using a adb_free_trans [OF a Cons.IH]
        by (simp add: addFunctions_link [OF na Some] del: addFunctions.simps)
    qed
  qed
qed

lemma addFunctions_lined_up:
  "lined_up i s \<Longrightarrow> fst (addFunctions e ts i False s) = 0 \<Longrightarrow>
   lined_up (fst (snd (addFunctions e ts i False s))) (snd (snd (addFunctions e ts i False s)))"
proof (induction ts arbitrary: i s)
  case Nil
  then show ?case by simp
next
  case (Cons t ts)
  show ?case
  proof (cases "t = ''adb''")
    case True
    then show ?thesis using Cons by simp
  next
    case na: False
    show ?thesis
    proof (cases "map_of supported_funcs t")
      case None
      with na Cons.prems show ?thesis by simp
    next
      case (Some f)
      note step = addFunctions_link [OF na Some, of e ts i s]
      show ?thesis
      proof (cases "link_fails e (f e) i")
        case True
        with Cons.prems(2) show ?thesis unfolding step by simp
      next
        case False
        have l: "lined_up (Suc i) (snd (linkFunction e (f e) i s))"
          by (rule lined_up_linkFunction [OF Cons.prems(1) False])
        from Cons.prems(2) False
        have z: "fst (addFunctions e ts (Suc i) False (snd (linkFunction e (f e) i s))) = 0"
          unfolding step by simp
        from Cons.IH [OF l z] False show ?thesis unfolding step by simp
      qed
    qed
  qed
qed

lemma link_comp_adb_free:
  assumes al: "\<forall>t. t \<noteq> ''adb'' \<longrightarrow> func_node e t \<noteq> ''ffs.adb''"
  shows "adb_free s (snd (snd (link_comp e cmp i s)))"
proof -
  obtain r i1 s1 where a: "addFunctionsFromPropString e cmp i False s = (r, i1, s1)"
    by (cases "addFunctionsFromPropString e cmp i False s") auto
  have "adb_free s (snd (snd (addFunctions e (tokens [] cmp) i False s)))"
    by (rule addFunctions_adb_free [OF al])
  then have u1: "adb_free s s1" using a by (simp add: addFunctionsFromPropString_def)
  have u2: "adb_free s (snd (lookupAndSetVidPid e cmp s1))"
    by (rule adb_free_trans [OF u1 adb_free_lookupAndSetVidPid])
  show ?thesis using u1 u2 by (simp add: link_comp_def a case_prod_beta)
qed

lemma link_comp_lined_up:
  assumes "lined_up i s" and "fst (link_comp e cmp i s) = SUCCESS"
  shows "lined_up (fst (snd (link_comp e cmp i s))) (snd (snd (link_comp e cmp i s)))"
proof -
  obtain r i1 s1 where a: "addFunctions e (tokens [] cmp) i False s = (r, i1, s1)"
    by (cases "addFunctions e (tokens [] cmp) i False s") auto
  have r: "r = 0"
    using assms(2) by (simp add: link_comp_def addFunctionsFromPropString_def a split: if_splits)
  have "lined_up i1 s1"
    using addFunctions_lined_up [OF assms(1), of e "tokens [] cmp"] r by (simp add: a)
  then have "lined_up i1 (snd (lookupAndSetVidPid e cmp s1))"
    by (rule lined_up_lookupAndSetVidPid)
  then show ?thesis
    by (simp add: link_comp_def addFunctionsFromPropString_def a r case_prod_beta)
qed

lemma linkNodes_adb_free:
  "''ffs.adb'' \<notin> set ns \<Longrightarrow> adb_free s (snd (snd (linkNodes e ns i s)))"
proof (induction ns arbitrary: i s)
  case Nil
  show ?case by (simp add: adb_free_refl)
next
  case (Cons n ns)
  then have n: "n \<noteq> ''ffs.adb''" and rest: "''ffs.adb'' \<notin> set ns" by auto
  have a: "adb_free s (snd (linkFunction e n i s))" by (rule adb_free_linkFunction [OF n])
  show ?case
    using a adb_free_trans [OF a Cons.IH [OF rest]] by (simp add: case_prod_beta)
qed

lemma linkNodes_lined_up:
  "lined_up i s \<Longrightarrow> fst (linkNodes e ns i s) = SUCCESS \<Longrightarrow>
   lined_up (fst (snd (linkNodes e ns i s))) (snd (snd (linkNodes e ns i s)))"
proof (induction ns arbitrary: i s)
  case Nil
  then show ?case by simp
next
  case (Cons n ns)
  show ?case
  proof (cases "link_fails e n i")
    case True
    with Cons.prems(2) show ?thesis by (simp add: case_prod_beta linkFunction_fst)
  next
    case False
    have l: "lined_up (Suc i) (snd (linkFunction e n i s))"
      by (rule lined_up_linkFunction [OF Cons.prems(1) False])
    from Cons.prems(2) False
    have z: "fst (linkNodes e ns (Suc i) (snd (linkFunction e n i s))) = SUCCESS"
      by (simp add: case_prod_beta linkFunction_fst)
    from Cons.IH [OF l z] False show ?thesis by (simp add: case_prod_beta linkFunction_fst)
  qed
qed

lemma setup_first_adb_free:
  assumes adb: "functions AND GF_ADB \<noteq> 0"
    and al: "\<forall>t. t \<noteq> ''adb'' \<longrightarrow> func_node e t \<noteq> ''ffs.adb''"
    and gen: "''ffs.adb'' \<notin> set (generic_nodes e functions)"
  shows "adb_free s (snd (snd (snd (setup_first e functions mtype s))))"
proof -
  have a: "adb_free s (snd (snd (link_comp e (rndis_adb_comp mtype) 0 s)))"
    by (rule link_comp_adb_free [OF al])
  have c: "adb_free s (snd (snd (linkNodes e (generic_nodes e functions) 0 s)))"
    by (rule linkNodes_adb_free [OF gen])
  show ?thesis
    using a c adb
    by (simp add: setup_first_def addGenericAndroidFunctions_def case_prod_beta)
qed

lemma setup_first_lined_up:
  assumes adb: "functions AND GF_ADB \<noteq> 0" and l: "lined_up 0 s"
    and ok: "fst (setup_first e functions mtype s) = SUCCESS"
  shows "lined_up (fst (snd (snd (setup_first e functions mtype s))))
           (snd (snd (snd (setup_first e functions mtype s))))"
proof (cases "functions AND GF_RNDIS \<noteq> 0")
  case True
  let ?r = "link_comp e (rndis_adb_comp mtype) 0 s"
  have eq: "setup_first e functions mtype s = (fst ?r, False, fst (snd ?r), snd (snd ?r))"
    using True adb by (simp add: setup_first_def case_prod_beta)
  from ok have "fst ?r = SUCCESS" unfolding eq by simp
  from link_comp_lined_up [OF l this] show ?thesis unfolding eq by simp
next
  case False
  let ?r = "linkNodes e (generic_nodes e functions) 0 s"
  have eq: "setup_first e functions mtype s =
      (if fst ?r \<noteq> SUCCESS then ERROR else SUCCESS, generic_ffs e functions,
       fst (snd ?r), snd (snd ?r))"
    using False by (simp add: setup_first_def addGenericAndroidFunctions_def case_prod_beta)
  from ok have "fst ?r = SUCCESS" unfolding eq by (simp split: if_splits)
  from linkNodes_lined_up [OF l this] show ?thesis unfolding eq by simp
qed

lemma setup_override_adb_free:
  assumes al: "\<forall>t. t \<noteq> ''adb'' \<longrightarrow> func_node e t \<noteq> ''ffs.adb''"
  shows "adb_free s (snd (snd (setup_override e functions mtype vendorProp i s)))"
proof -
  let ?vp = "if str_find vendorProp ''adb'' = npos then vendorProp @ '',adb'' else vendorProp"
  obtain r i1 s1 where a: "addFunctionsFromPropString e ?vp i False s = (r, i1, s1)"
    by (cases "addFunctionsFromPropString e ?vp i False s") auto
  obtain r2 s2 where b: "lookupAndSetVidPid e ?vp s1 = (r2, s2)"
    by (cases "lookupAndSetVidPid e ?vp s1") auto
  have "adb_free s (snd (snd (addFunctions e (tokens [] ?vp) i False s)))"
    by (rule addFunctions_adb_free [OF al])
  then have u1: "adb_free s s1" using a by (simp add: addFunctionsFromPropString_def)
  have "adb_free s1 (snd (lookupAndSetVidPid e ?vp s1))" by (rule adb_free_lookupAndSetVidPid)
  then have u2: "adb_free s s2" using adb_free_trans [OF u1] by (simp add: b)
  have d1: "adb_free s (snd (snd (link_comp e (adb_default_comp mtype) 0 (unlinkFunctions s1))))"
    by (rule adb_free_trans [OF adb_free_trans [OF u1 adb_free_unlinkFunctions]
          link_comp_adb_free [OF al]])
  have d2: "adb_free s (snd (snd (link_comp e (adb_default_comp mtype) 0 (unlinkFunctions s2))))"
    by (rule adb_free_trans [OF adb_free_trans [OF u2 adb_free_unlinkFunctions]
          link_comp_adb_free [OF al]])
  show ?thesis
    unfolding setup_override_def Let_def a b prod.case
    using u2 d1 d2 by (simp add: adb_free_refl link_comp_adb_free [OF al])
qed

lemma setup_override_lined_up:
  assumes l: "lined_up i s"
    and ok: "fst (setup_override e functions mtype vendorProp i s) = SUCCESS"
  shows "lined_up (fst (snd (setup_override e functions mtype vendorProp i s)))
           (snd (snd (setup_override e functions mtype vendorProp i s)))"
proof (cases "i = 0 \<and> functions AND GF_ADB \<noteq> 0")
  case False
  then have "setup_override e functions mtype vendorProp i s = (SUCCESS, i, s)"
    by (auto simp: setup_override_def)
  with l show ?thesis by simp
next
  case enter: True
  let ?d = "adb_default_comp mtype"
  show ?thesis
  proof (cases "vendorProp = []")
    case True
    then have eq: "setup_override e functions mtype vendorProp i s = link_comp e ?d i s"
      using enter by (simp add: setup_override_def)
    from link_comp_lined_up [OF l ok [unfolded eq]] show ?thesis unfolding eq .
  next
    case ne: False
    from enter have i0: "i = 0" and adb: "functions AND GF_ADB \<noteq> 0" by simp_all
    from l i0 have l0: "lined_up 0 s" by simp
    obtain ovr where ov: "ovr =
        (if str_find vendorProp ''adb'' = npos then vendorProp @ '',adb'' else vendorProp)"
      by simp
    obtain r i1 s1 where a: "addFunctionsFromPropString e ovr 0 False s = (r, i1, s1)"
      by (cases "addFunctionsFromPropString e ovr 0 False s") auto
    obtain r2 s2 where b: "lookupAndSetVidPid e ovr s1 = (r2, s2)"
      by (cases "lookupAndSetVidPid e ovr s1") auto
    have eq: "setup_override e functions mtype vendorProp i s =
        (if r = 0 then
           (if r2 = 0 then (SUCCESS, i1, s2) else link_comp e ?d 0 (unlinkFunctions s2))
         else link_comp e ?d 0 (unlinkFunctions s1))"
      unfolding i0 using adb ne by (simp add: setup_override_def ov [symmetric] a b)
    show ?thesis
    proof (cases "r = 0 \<and> r2 = 0")
      case True
      have "lined_up i1 s1"
        using addFunctions_lined_up [OF l0, of e "tokens [] ovr"] True a
        by (simp add: addFunctionsFromPropString_def)
      then have "lined_up i1 (snd (lookupAndSetVidPid e ovr s1))"
        by (rule lined_up_lookupAndSetVidPid)
      then show ?thesis unfolding eq using True by (simp add: b)
    next
      case False
      then obtain t where eq2: "setup_override e functions mtype vendorProp i s =
          link_comp e ?d 0 (unlinkFunctions t)"
        unfolding eq by (cases "r = 0") auto
      from link_comp_lined_up [OF lined_up_unlinkFunctions ok [unfolded eq2]]
      show ?thesis unfolding eq2 .
    qed
  qed
qed

lemma adb_links_pull_up:
  "adb_links (snd (pull_up e functions callback gadgetName ffs s)) = adb_links s"
  by (simp add: adb_links_def pull_up_def Let_def called_def functionsAppliedCallback_def)

text \<open>
  A successful run of \<^verbatim>\<open>setupFunctions\<close> for a request with the ADB bit ends with the
  link of the ADB node and the pull-up.
\<close>

lemma setupFunctions_adb_shape:
  assumes adb: "fs AND GF_ADB \<noteq> 0"
    and ok: "fst (setupFunctions e fs callback s) = SUCCESS"
    and start: "linked s = []"
    and al: "\<forall>t. t \<noteq> ''adb'' \<longrightarrow> func_node e t \<noteq> ''ffs.adb''"
    and gen: "''ffs.adb'' \<notin> set (generic_nodes e fs)"
  shows "\<exists>i2 s2. adb_free s s2 \<and> lined_up i2 s2 \<and> \<not> link_fails e ''ffs.adb'' i2 \<and>
           setupFunctions e fs callback s =
             pull_up e fs callback (GetProperty e USB_CONTROLLER_PROP []) True
               (snd (linkFunction e ''ffs.adb'' i2 s2))"
proof -
  have udc: "GetProperty e USB_CONTROLLER_PROP [] \<noteq> []"
    using ok by (auto simp: setupFunctions_def Let_def)
  let ?m = "getModemType e"
  let ?vp = "GetProperty e VENDOR_USB_PROP (GetProperty e PERSIST_VENDOR_USB_PROP [])"
  obtain st1 ffs1 i1 s1 where p1: "setup_first e fs ?m s = (st1, ffs1, i1, s1)"
    by (cases "setup_first e fs ?m s") auto
  obtain st2 i2 s2 where p2: "setup_override e fs ?m ?vp i1 s1 = (st2, i2, s2)"
    by (cases "setup_override e fs ?m ?vp i1 s1") auto
  obtain st3 ffs3 s3 where p3: "enable_adb e fs ffs1 i2 s2 = (st3, ffs3, s3)"
    by (cases "enable_adb e fs ffs1 i2 s2") auto
  have run: "setupFunctions e fs callback s =
      (if st1 \<noteq> SUCCESS then (ERROR, s1)
       else if st2 \<noteq> SUCCESS then (ERROR, s2)
       else if st3 \<noteq> SUCCESS then (ERROR, s3)
       else pull_up e fs callback (GetProperty e USB_CONTROLLER_PROP []) ffs3 s3)"
    unfolding setupFunctions_def Let_def using udc by (simp add: p1 p2 p3)
  from ok have st: "st1 = SUCCESS" "st2 = SUCCESS" "st3 = SUCCESS"
    unfolding run by (auto split: if_splits)
  have l0: "lined_up 0 s" using start by (simp add: lined_up_def)
  have "adb_free s (snd (snd (snd (setup_first e fs ?m s))))"
    by (rule setup_first_adb_free [OF adb al gen])
  then have f1: "adb_free s s1" by (simp add: p1)
  have "lined_up (fst (snd (snd (setup_first e fs ?m s)))) (snd (snd (snd (setup_first e fs ?m s))))"
    by (rule setup_first_lined_up [OF adb l0]) (simp add: p1 st)
  then have l1: "lined_up i1 s1" by (simp add: p1)
  have "adb_free s1 (snd (snd (setup_override e fs ?m ?vp i1 s1)))"
    by (rule setup_override_adb_free [OF al])
  then have f2: "adb_free s s2" using adb_free_trans [OF f1] by (simp add: p2)
  have "lined_up (fst (snd (setup_override e fs ?m ?vp i1 s1)))
          (snd (snd (setup_override e fs ?m ?vp i1 s1)))"
    by (rule setup_override_lined_up [OF l1]) (simp add: p2 st)
  then have l2: "lined_up i2 s2" by (simp add: p2)
  have nl: "\<not> link_fails e ''ffs.adb'' i2"
  proof
    assume "link_fails e ''ffs.adb'' i2"
    then have "fst (enable_adb e fs ffs1 i2 s2) = ERROR"
      using adb by (simp add: enable_adb_def addAdb_def linkFunction_def Let_def)
    with p3 st(3) show False by simp
  qed
  have e3: "ffs3 = True \<and> s3 = snd (linkFunction e ''ffs.adb'' i2 s2)"
    using enable_adb_ok [OF adb nl, of ffs1 s2] by (simp add: p3)
  have "setupFunctions e fs callback s =
      pull_up e fs callback (GetProperty e USB_CONTROLLER_PROP []) True
        (snd (linkFunction e ''ffs.adb'' i2 s2))"
    unfolding run using st e3 by simp
  with f2 l2 nl show ?thesis by blast
qed

lemma run_setup_override_diag_foo:
  "setupFunctions override_diag_foo GF_ADB True idle =
     (SUCCESS,
      \<lparr>mCurrentUsbFunctions = 0, mCurrentUsbFunctionsApplied = True,
       linked = [(0, ''diag.diag''), (1, ''cser.dun.0''), (2, ''gsi.rmnet''), (3, ''gsi.dpl''),
         (4, ''qdss.qdss''), (5, ''ffs.adb'')],
       vidpid = Some (''0x05C6'', ''0x90DB''), pullup = Some ''a600000.dwc3'',
       monitorRunning = True,
       calls = [EvLink ''diag.diag'' 0, EvUnlinkFunctions, EvLink ''diag.diag'' 0,
         EvLink ''cser.dun.0'' 1, EvLink ''gsi.rmnet'' 2, EvLink ''gsi.dpl'' 3,
         EvLink ''qdss.qdss'' 4, EvSetVidPid ''0x05C6'' ''0x90DB'', EvLink ''ffs.adb'' 5,
         EvRegisterCallback, EvStartMonitor, EvCallback 1 SUCCESS]\<rparr>)"
  by (simp add: model_defs name_defs override_diag_foo_def quiet_def idle_def Let_def
        rows_defaults tokens_defaults)

lemma links_of_append: "links_of e (a @ b) = links_of e a @ links_of e b"
  by (induction e a rule: links_of.induct) simp_all

lemma extendsI: "calls s' = calls s @ c \<Longrightarrow> extends s s'"
  by (simp add: extends_def new_calls_def)

lemma extends_new_calls: "calls s' = calls s @ c \<Longrightarrow> new_calls s s' = c"
  by (simp add: new_calls_def)

lemma extends_refl: "extends s s"
  by (simp add: extends_def new_calls_def)

lemma extends_trans: "extends s t \<Longrightarrow> extends t u \<Longrightarrow> extends s u"
proof -
  assume a: "extends s t" and b: "extends t u"
  from a b have "calls u = calls s @ (new_calls s t @ new_calls t u)"
    by (simp add: extends_def)
  then show ?thesis by (rule extendsI)
qed

lemma new_calls_trans:
  "extends s t \<Longrightarrow> extends t u \<Longrightarrow> new_calls s u = new_calls s t @ new_calls t u"
proof -
  assume a: "extends s t" and b: "extends t u"
  from a b have "calls u = calls s @ (new_calls s t @ new_calls t u)"
    by (simp add: extends_def)
  then show ?thesis by (rule extends_new_calls)
qed

lemma only_linksI:
  "calls s' = calls s @ c \<Longrightarrow> EvUnlinkFunctions \<notin> set c \<Longrightarrow>
   linked s' = linked s @ links_of e c \<Longrightarrow> only_links e s s'"
  by (simp add: only_links_def extends_def new_calls_def)

lemma only_links_extends: "only_links e s s' \<Longrightarrow> extends s s'"
  by (simp add: only_links_def)

lemma only_links_refl: "only_links e s s"
  by (simp add: only_links_def extends_def new_calls_def)

lemma only_links_trans: "only_links e s t \<Longrightarrow> only_links e t u \<Longrightarrow> only_links e s u"
proof -
  assume a: "only_links e s t" and b: "only_links e t u"
  then have x: "extends s t" and y: "extends t u" by (simp_all add: only_links_def)
  note n = new_calls_trans [OF x y]
  show ?thesis
    using a b extends_trans [OF x y] by (simp add: only_links_def n links_of_append)
qed

lemma only_links_linkFunction: "only_links e s (snd (linkFunction e n i s))"
  by (rule only_linksI [where c = "[EvLink n i]"])
     (simp_all add: linkFunction_def Let_def called_def)

lemma only_links_setVidPid: "only_links e s (snd (setVidPid e v p s))"
  by (rule only_linksI [where c = "[EvSetVidPid v p]"])
     (simp_all add: setVidPid_def Let_def called_def)

lemma only_links_lookupAndSetVidPid: "only_links e s (snd (lookupAndSetVidPid e cmp s))"
proof (cases "map_of supported_compositions cmp")
  case None
  then show ?thesis by (simp add: lookupAndSetVidPid_def only_links_refl)
next
  case (Some vp)
  obtain v p where vp: "vp = (v, p)" by (cases vp) auto
  have "snd (lookupAndSetVidPid e cmp s) = snd (setVidPid e v p s)"
    by (simp add: lookupAndSetVidPid_def Some vp split: prod.splits)
  then show ?thesis by (simp add: only_links_setVidPid)
qed

lemma only_links_validateAndSetVidPid:
  "only_links e s (snd (validateAndSetVidPid e functions s))"
  by (simp add: validateAndSetVidPid_def only_links_setVidPid only_links_refl)


lemma only_links_addFunctions: "only_links e s (snd (snd (addFunctions e ts i adb s)))"
proof (induction ts arbitrary: i s)
  case Nil
  show ?case by (simp add: only_links_refl)
next
  case (Cons t ts)
  show ?case
  proof (cases "\<not> adb \<and> t = ''adb''")
    case True
    then show ?thesis using Cons.IH by simp
  next
    case False
    show ?thesis
    proof (cases "map_of supported_funcs t")
      case None
      with False show ?thesis by (auto simp: only_links_refl)
    next
      case (Some f)
      obtain r s1 where l: "linkFunction e (f e) i s = (r, s1)"
        by (cases "linkFunction e (f e) i s") auto
      have "only_links e s (snd (linkFunction e (f e) i s))" by (rule only_links_linkFunction)
      then have k1: "only_links e s s1" by (simp add: l)
      show ?thesis
        using False k1 only_links_trans [OF k1 Cons.IH [where s = s1 and i = "Suc i"]]
        by (auto simp: Some l)
    qed
  qed
qed

lemma only_links_link_comp: "only_links e s (snd (snd (link_comp e cmp i s)))"
proof -
  obtain r i1 s1 where a: "addFunctionsFromPropString e cmp i False s = (r, i1, s1)"
    by (cases "addFunctionsFromPropString e cmp i False s") auto
  have "only_links e s (snd (snd (addFunctions e (tokens [] cmp) i False s)))"
    by (rule only_links_addFunctions)
  then have u1: "only_links e s s1" using a by (simp add: addFunctionsFromPropString_def)
  have u2: "only_links e s (snd (lookupAndSetVidPid e cmp s1))"
    by (rule only_links_trans [OF u1 only_links_lookupAndSetVidPid])
  show ?thesis using u1 u2 by (simp add: link_comp_def a case_prod_beta)
qed

lemma only_links_linkNodes: "only_links e s (snd (snd (linkNodes e ns i s)))"
proof (induction ns arbitrary: i s)
  case Nil
  show ?case by (simp add: only_links_refl)
next
  case (Cons n ns)
  obtain r s1 where l: "linkFunction e n i s = (r, s1)" by (cases "linkFunction e n i s") auto
  have "only_links e s (snd (linkFunction e n i s))" by (rule only_links_linkFunction)
  then have u1: "only_links e s s1" by (simp add: l)
  show ?case
    using u1 only_links_trans [OF u1 Cons.IH [where s = s1 and i = "Suc i"]] by (simp add: l)
qed

lemma only_links_setup_first:
  "only_links e s (snd (snd (snd (setup_first e functions mtype s))))"
proof -
  have a: "only_links e s (snd (snd (link_comp e (rndis_adb_comp mtype) 0 s)))"
    by (rule only_links_link_comp)
  have b: "only_links e s (snd (linkFunction e (rndisFuncname e) 0 s))"
    by (rule only_links_linkFunction)
  have c: "only_links e s (snd (snd (linkNodes e (generic_nodes e functions) 0 s)))"
    by (rule only_links_linkNodes)
  show ?thesis
    using a b c
    by (simp add: setup_first_def addGenericAndroidFunctions_def case_prod_beta)
qed


lemma only_links_enable_adb: "only_links e s (snd (snd (enable_adb e functions ffs i s)))"
  using only_links_linkFunction [where s = s and e = e and n = "''ffs.adb''" and i = i]
  by (simp add: enable_adb_def addAdb_def case_prod_beta only_links_refl)

lemma only_links_pull_up: "only_links e s (snd (pull_up e functions callback gadgetName ffs s))"
  by (simp add: only_links_def extends_def new_calls_def pull_up_def Let_def called_def
        functionsAppliedCallback_def)

lemma extends_unlinkFunctions: "extends s (unlinkFunctions s)"
  by (simp add: extends_def new_calls_def unlinkFunctions_def called_def)

lemma extends_setup_override:
  "extends s (snd (snd (setup_override e functions mtype vendorProp i s)))"
proof -
  let ?vp = "if str_find vendorProp ''adb'' = npos then vendorProp @ '',adb'' else vendorProp"
  obtain r i1 s1 where a: "addFunctionsFromPropString e ?vp i False s = (r, i1, s1)"
    by (cases "addFunctionsFromPropString e ?vp i False s") auto
  obtain r2 s2 where b: "lookupAndSetVidPid e ?vp s1 = (r2, s2)"
    by (cases "lookupAndSetVidPid e ?vp s1") auto
  have "extends s (snd (snd (addFunctions e (tokens [] ?vp) i False s)))"
    by (rule only_links_extends [OF only_links_addFunctions])
  then have u1: "extends s s1" using a by (simp add: addFunctionsFromPropString_def)
  have "extends s1 (snd (lookupAndSetVidPid e ?vp s1))"
    by (rule only_links_extends [OF only_links_lookupAndSetVidPid])
  then have u2: "extends s s2" using extends_trans [OF u1] by (simp add: b)
  have lc: "extends t (snd (snd (link_comp e (adb_default_comp mtype) k t)))" for t k
    by (rule only_links_extends [OF only_links_link_comp])
  have d1: "extends s (snd (snd (link_comp e (adb_default_comp mtype) 0 (unlinkFunctions s1))))"
    by (rule extends_trans [OF extends_trans [OF u1 extends_unlinkFunctions] lc])
  have d2: "extends s (snd (snd (link_comp e (adb_default_comp mtype) 0 (unlinkFunctions s2))))"
    by (rule extends_trans [OF extends_trans [OF u2 extends_unlinkFunctions] lc])
  show ?thesis
    unfolding setup_override_def Let_def a b prod.case
    using u2 d1 d2 by (simp add: extends_refl lc)
qed


lemma extends_setupFunctions: "extends s (snd (setupFunctions e fs callback s))"
proof (cases "GetProperty e USB_CONTROLLER_PROP [] = []")
  case True
  then show ?thesis by (simp add: setupFunctions_def extends_refl)
next
  case udc: False
  let ?m = "getModemType e"
  let ?vp = "GetProperty e VENDOR_USB_PROP (GetProperty e PERSIST_VENDOR_USB_PROP [])"
  obtain st1 ffs1 i1 s1 where p1: "setup_first e fs ?m s = (st1, ffs1, i1, s1)"
    by (cases "setup_first e fs ?m s") auto
  obtain st2 i2 s2 where p2: "setup_override e fs ?m ?vp i1 s1 = (st2, i2, s2)"
    by (cases "setup_override e fs ?m ?vp i1 s1") auto
  obtain st3 ffs3 s3 where p3: "enable_adb e fs ffs1 i2 s2 = (st3, ffs3, s3)"
    by (cases "enable_adb e fs ffs1 i2 s2") auto
  have "extends s (snd (snd (snd (setup_first e fs ?m s))))"
    by (rule only_links_extends [OF only_links_setup_first])
  then have u1: "extends s s1" by (simp add: p1)
  have "extends s1 (snd (snd (setup_override e fs ?m ?vp i1 s1)))"
    by (rule extends_setup_override)
  then have u2: "extends s s2" using extends_trans [OF u1] by (simp add: p2)
  have "extends s2 (snd (snd (enable_adb e fs ffs1 i2 s2)))"
    by (rule only_links_extends [OF only_links_enable_adb])
  then have u3: "extends s s3" using extends_trans [OF u2] by (simp add: p3)
  have u4: "extends s (snd (pull_up e fs callback (GetProperty e USB_CONTROLLER_PROP []) ffs3 s3))"
    by (rule extends_trans [OF u3 only_links_extends [OF only_links_pull_up]])
  show ?thesis
    unfolding setupFunctions_def Let_def using udc u1 u2 u3 u4 by (simp add: p1 p2 p3)
qed





text \<open>The parts of a cycle after a successful teardown.\<close>

lemma cycle_run:
  assumes td: "\<not> reset_fails e"
  shows "\<exists>s1 status2 s2 status3 s3.
     linked s1 = [] \<and> pullup s1 = None \<and> mCurrentUsbFunctions s1 = fs \<and>
     \<not> mCurrentUsbFunctionsApplied s1 \<and>
     calls s1 = calls s @ EvResetGadget # (if monitorRunning s then [EvMonitorReset] else []) \<and>
     validateAndSetVidPid e fs s1 = (status2, s2) \<and>
     setupFunctions e fs callback s2 = (status3, s3) \<and>
     setCurrentUsbFunctions e fs callback s =
       (if fs = GF_NONE then (if callback then called (EvCallback fs SUCCESS) s1 else s1)
        else if status2 \<noteq> SUCCESS then report_error fs callback status2 s2
        else if status3 \<noteq> SUCCESS then report_error fs callback status3 s3 else s3) \<and>
     cycle_status e fs callback s =
       (if fs = GF_NONE then SUCCESS else if status2 \<noteq> SUCCESS then status2 else status3) \<and>
     cycle_points e fs s =
       s\<lparr>mCurrentUsbFunctions := fs, mCurrentUsbFunctionsApplied := False\<rparr> # s1 #
       (if fs = GF_NONE then []
        else s2 # (if status2 \<noteq> SUCCESS then [] else setup_points e fs s2))"
proof -
  let ?s0 = "s\<lparr>mCurrentUsbFunctions := fs, mCurrentUsbFunctionsApplied := False\<rparr>"
  note ok = tearDownGadget_ok [OF td, of ?s0]
  obtain st1 s1 where td1: "tearDownGadget e ?s0 = (st1, s1)"
    by (cases "tearDownGadget e ?s0") auto
  have st1: "st1 = SUCCESS" using ok by (simp add: td1)
  obtain status2 s2 where v: "validateAndSetVidPid e fs s1 = (status2, s2)"
    by (cases "validateAndSetVidPid e fs s1") auto
  obtain status3 s3 where st: "setupFunctions e fs callback s2 = (status3, s3)"
    by (cases "setupFunctions e fs callback s2") auto
  have a: "linked s1 = []" "pullup s1 = None" "mCurrentUsbFunctions s1 = fs"
    "\<not> mCurrentUsbFunctionsApplied s1"
    "calls s1 = calls s @ EvResetGadget # (if monitorRunning s then [EvMonitorReset] else [])"
    using ok by (simp_all add: td1)
  have cyc: "setCurrentUsbFunctions e fs callback s =
       (if fs = GF_NONE then (if callback then called (EvCallback fs SUCCESS) s1 else s1)
        else if status2 \<noteq> SUCCESS then report_error fs callback status2 s2
        else if status3 \<noteq> SUCCESS then report_error fs callback status3 s3 else s3)"
    unfolding setCurrentUsbFunctions_def Let_def td1 st1 by (simp add: v st)
  have cs: "cycle_status e fs callback s =
       (if fs = GF_NONE then SUCCESS else if status2 \<noteq> SUCCESS then status2 else status3)"
    unfolding cycle_status_def Let_def td1 st1 by (simp add: v st)
  have cp: "cycle_points e fs s =
       ?s0 # s1 #
       (if fs = GF_NONE then []
        else s2 # (if status2 \<noteq> SUCCESS then [] else setup_points e fs s2))"
    unfolding cycle_points_def Let_def td1 st1 by (simp add: v)
  from a v st cyc cs cp show ?thesis by blast
qed


lemma setupFunctions_error_unpulled:
  assumes "fst (setupFunctions e fs callback s) \<noteq> SUCCESS"
  shows "unpulled s (snd (setupFunctions e fs callback s))"
proof -
  from setupFunctions_shape [of s e fs callback] obtain t where
    t: "unpulled s t" and
    sh: "setupFunctions e fs callback s = (ERROR, t) \<or>
         setupFunctions e fs callback s =
           pull_up e fs callback (GetProperty e USB_CONTROLLER_PROP []) (ffs_enabled e fs) t"
    by blast
  from sh show ?thesis
  proof
    assume "setupFunctions e fs callback s = (ERROR, t)"
    with t show ?thesis by simp
  next
    assume a: "setupFunctions e fs callback s =
           pull_up e fs callback (GetProperty e USB_CONTROLLER_PROP []) (ffs_enabled e fs) t"
    with assms have "fst (pull_up e fs callback (GetProperty e USB_CONTROLLER_PROP [])
        (ffs_enabled e fs) t) \<noteq> SUCCESS" by simp
    from pull_up_error [OF this] have "unpulled t (snd (setupFunctions e fs callback s))"
      by (simp add: a)
    with t show ?thesis by (rule unpulled_trans)
  qed
qed

text \<open>
  A cycle that reaches the label \<^verbatim>\<open>error\<close>, with a callback or without one: the
  applied flag is false, after a successful teardown the pull-up file is cleared, and the
  callback, when there is one, is passed the status.
\<close>

lemma cycle_status_failed:
  assumes ns: "cycle_status e fs callback s \<noteq> SUCCESS"
  shows "\<not> mCurrentUsbFunctionsApplied (setCurrentUsbFunctions e fs callback s) \<and>
         (\<not> reset_fails e \<longrightarrow> pullup (setCurrentUsbFunctions e fs callback s) = None) \<and>
         (callback \<longrightarrow> last (calls (setCurrentUsbFunctions e fs callback s)) =
            EvCallback fs (cycle_status e fs callback s))"
proof -
  let ?s0 = "s\<lparr>mCurrentUsbFunctions := fs, mCurrentUsbFunctionsApplied := False\<rparr>"
  let ?s' = "setCurrentUsbFunctions e fs callback s"
  show ?thesis
  proof (cases "reset_fails e")
    case True
    then have "?s' = report_error fs callback ERROR (called EvResetGadget ?s0)"
      and "cycle_status e fs callback s = ERROR"
      by (simp_all add: setCurrentUsbFunctions_def cycle_status_def tearDownGadget_def
            resetGadget_def Let_def)
    then show ?thesis using True by (cases callback) (simp_all add: report_error_def called_def)
  next
    case False
    note td = tearDownGadget_ok [OF False, of ?s0]
    obtain st1 s1 where td1: "tearDownGadget e ?s0 = (st1, s1)"
      by (cases "tearDownGadget e ?s0") auto
    have st1: "st1 = SUCCESS" using td by (simp add: td1)
    have a1: "\<not> mCurrentUsbFunctionsApplied s1" and p1: "pullup s1 = None"
      using td by (simp_all add: td1)
    obtain status2 s2 where v: "validateAndSetVidPid e fs s1 = (status2, s2)"
      by (cases "validateAndSetVidPid e fs s1") auto
    obtain status3 s3 where st: "setupFunctions e fs callback s2 = (status3, s3)"
      by (cases "setupFunctions e fs callback s2") auto
    have "unpulled s1 (snd (validateAndSetVidPid e fs s1))"
      by (rule unpulled_validateAndSetVidPid)
    then have u2: "unpulled s1 s2" by (simp add: v)
    have cs: "cycle_status e fs callback s =
        (if fs = GF_NONE then SUCCESS else if status2 \<noteq> SUCCESS then status2 else status3)"
      unfolding cycle_status_def Let_def td1 st1 by (simp add: v st)
    have cyc: "?s' =
        (if fs = GF_NONE then (if callback then called (EvCallback fs SUCCESS) s1 else s1)
         else if status2 \<noteq> SUCCESS then report_error fs callback status2 s2
         else if status3 \<noteq> SUCCESS then report_error fs callback status3 s3 else s3)"
      unfolding setCurrentUsbFunctions_def Let_def td1 st1 by (simp add: v st)
    from ns cs have nz: "fs \<noteq> GF_NONE" by auto
    show ?thesis
    proof (cases "status2 = SUCCESS")
      case f2: False
      then have "?s' = report_error fs callback status2 s2"
        and "cycle_status e fs callback s = status2"
        using nz by (simp_all add: cyc cs)
      then show ?thesis
        using u2 a1 p1
        by (cases callback) (simp_all add: report_error_def called_def unpulled_def)
    next
      case t2: True
      with ns cs nz have f3: "status3 \<noteq> SUCCESS" by simp
      then have "fst (setupFunctions e fs callback s2) \<noteq> SUCCESS" by (simp add: st)
      from setupFunctions_error_unpulled [OF this] have "unpulled s2 s3" by (simp add: st)
      with u2 have u3: "unpulled s1 s3" by (rule unpulled_trans)
      have "?s' = report_error fs callback status3 s3"
        and "cycle_status e fs callback s = status3"
        using nz t2 f3 by (simp_all add: cyc cs)
      then show ?thesis
        using u3 a1 p1
        by (cases callback) (simp_all add: report_error_def called_def unpulled_def)
    qed
  qed
qed



lemma status_link_fails_at_2_silent:
  "cycle_status link_fails_at_2 (GF_RNDIS OR GF_ADB) False idle = ERROR"
  by (simp add: cycle_status_def model_defs name_defs link_fails_at_2_def quiet_def idle_def
        Let_def rows_defaults tokens_defaults)


lemma validate_generic_ids:
  "validateAndSetVidPid e functions s =
     (case generic_ids functions of
        None \<Rightarrow> (CONFIGURATION_NOT_SUPPORTED, s)
      | Some (v, p) \<Rightarrow> setVidPid e v p s)"
  by (simp add: validateAndSetVidPid_def generic_ids_def)

lemma generic_ids_rndis:
  "functions AND GF_RNDIS \<noteq> 0 \<Longrightarrow>
   generic_ids functions \<noteq> None \<longleftrightarrow> functions = GF_RNDIS \<or> functions = GF_ADB OR GF_RNDIS"
  by (auto simp: generic_ids_def GF_ADB_def GF_MTP_def GF_RNDIS_def GF_PTP_def
        GF_MIDI_def GF_ACCESSORY_def GF_AUDIO_SOURCE_def)

lemma generic_ids_values:
  "generic_ids (GF_ADB OR GF_RNDIS) = Some (''0x18d1'', ''0x4ee4'')"
  "generic_ids GF_RNDIS = Some (''0x18d1'', ''0x4ee3'')"
  "generic_ids GF_ADB = Some (''0x18d1'', ''0x4ee7'')"
  "generic_ids (GF_MTP OR GF_RNDIS) = None"
  by (simp_all add: generic_ids_def GF_ADB_def GF_MTP_def GF_RNDIS_def GF_PTP_def
        GF_MIDI_def GF_ACCESSORY_def GF_AUDIO_SOURCE_def)

text \<open>
  The three ways a cycle goes on after a successful teardown, for a request that is not
  None: the validation rejects the mask, its \<^verbatim>\<open>setVidPid\<close> fails, or
  \<^verbatim>\<open>setupFunctions\<close> runs from the state the validation left.
\<close>

lemma cycle_rejected:
  assumes td: "\<not> reset_fails e" and nz: "fs \<noteq> GF_NONE" and g: "generic_ids fs = None"
  shows "calls (setCurrentUsbFunctions e fs callback s) =
           calls s @ EvResetGadget # (if monitorRunning s then [EvMonitorReset] else []) @
           (if callback then [EvCallback fs CONFIGURATION_NOT_SUPPORTED] else []) \<and>
         linked (setCurrentUsbFunctions e fs callback s) = []"
proof -
  from cycle_run [OF td, of fs s callback] obtain s1 status2 s2 status3 s3 where
    l: "linked s1 = []" and
    cs: "calls s1 = calls s @ EvResetGadget # (if monitorRunning s then [EvMonitorReset] else [])"
    and v: "validateAndSetVidPid e fs s1 = (status2, s2)"
    and cyc: "setCurrentUsbFunctions e fs callback s =
       (if fs = GF_NONE then (if callback then called (EvCallback fs SUCCESS) s1 else s1)
        else if status2 \<noteq> SUCCESS then report_error fs callback status2 s2
        else if status3 \<noteq> SUCCESS then report_error fs callback status3 s3 else s3)"
    by blast
  from v have "status2 = CONFIGURATION_NOT_SUPPORTED \<and> s2 = s1"
    by (simp add: validate_generic_ids g)
  then show ?thesis
    unfolding cyc using nz by (simp add: report_error_def called_def l cs)
qed

lemma cycle_validation_fails:
  assumes td: "\<not> reset_fails e" and g: "generic_ids fs = Some (v, p)"
    and f: "setvidpid_fails e v p"
  shows "calls (setCurrentUsbFunctions e fs callback s) =
           calls s @ EvResetGadget # (if monitorRunning s then [EvMonitorReset] else []) @
           EvSetVidPid v p # (if callback then [EvCallback fs ERROR] else []) \<and>
         linked (setCurrentUsbFunctions e fs callback s) = []"
proof -
  have nz: "fs \<noteq> GF_NONE"
    using g by (auto simp: generic_ids_def GF_NONE_def GF_ADB_def GF_MTP_def GF_RNDIS_def
        GF_PTP_def GF_MIDI_def GF_ACCESSORY_def GF_AUDIO_SOURCE_def)
  from cycle_run [OF td, of fs s callback] obtain s1 status2 s2 status3 s3 where
    l: "linked s1 = []" and
    cs: "calls s1 = calls s @ EvResetGadget # (if monitorRunning s then [EvMonitorReset] else [])"
    and v: "validateAndSetVidPid e fs s1 = (status2, s2)"
    and cyc: "setCurrentUsbFunctions e fs callback s =
       (if fs = GF_NONE then (if callback then called (EvCallback fs SUCCESS) s1 else s1)
        else if status2 \<noteq> SUCCESS then report_error fs callback status2 s2
        else if status3 \<noteq> SUCCESS then report_error fs callback status3 s3 else s3)"
    by blast
  from v have "status2 = ERROR \<and> s2 = called (EvSetVidPid v p) s1"
    by (simp add: validate_generic_ids g setVidPid_def Let_def f)
  then show ?thesis
    unfolding cyc using nz by (simp add: report_error_def called_def l cs)
qed

lemma cycle_validated:
  assumes td: "\<not> reset_fails e" and g: "generic_ids fs = Some (v, p)"
    and f: "\<not> setvidpid_fails e v p"
  shows "\<exists>s2 c. vidpid s2 = Some (v, p) \<and> linked s2 = [] \<and>
           calls s2 =
             calls s @ EvResetGadget # (if monitorRunning s then [EvMonitorReset] else []) @
             [EvSetVidPid v p] \<and>
           calls (snd (setupFunctions e fs callback s2)) = calls s2 @ c \<and>
           calls (setCurrentUsbFunctions e fs callback s) =
             calls s2 @ c @
             (if callback \<and> fst (setupFunctions e fs callback s2) \<noteq> SUCCESS
              then [EvCallback fs (fst (setupFunctions e fs callback s2))] else []) \<and>
           linked (setCurrentUsbFunctions e fs callback s) =
             linked (snd (setupFunctions e fs callback s2)) \<and>
           vidpid (setCurrentUsbFunctions e fs callback s) =
             vidpid (snd (setupFunctions e fs callback s2))"
proof -
  have nz: "fs \<noteq> GF_NONE"
    using g by (auto simp: generic_ids_def GF_NONE_def GF_ADB_def GF_MTP_def GF_RNDIS_def
        GF_PTP_def GF_MIDI_def GF_ACCESSORY_def GF_AUDIO_SOURCE_def)
  from cycle_run [OF td, of fs s callback] obtain s1 status2 s2 status3 s3 where
    l: "linked s1 = []" and
    cs: "calls s1 = calls s @ EvResetGadget # (if monitorRunning s then [EvMonitorReset] else [])"
    and v: "validateAndSetVidPid e fs s1 = (status2, s2)"
    and st: "setupFunctions e fs callback s2 = (status3, s3)"
    and cyc: "setCurrentUsbFunctions e fs callback s =
       (if fs = GF_NONE then (if callback then called (EvCallback fs SUCCESS) s1 else s1)
        else if status2 \<noteq> SUCCESS then report_error fs callback status2 s2
        else if status3 \<noteq> SUCCESS then report_error fs callback status3 s3 else s3)"
    by blast
  from v have v2: "status2 = SUCCESS"
    and s2: "s2 = (called (EvSetVidPid v p) s1)\<lparr>vidpid := Some (v, p)\<rparr>"
    by (simp_all add: validate_generic_ids g setVidPid_def Let_def f)
  have a: "vidpid s2 = Some (v, p)" "linked s2 = []"
    "calls s2 =
       calls s @ EvResetGadget # (if monitorRunning s then [EvMonitorReset] else []) @
       [EvSetVidPid v p]"
    by (simp_all add: s2 called_def l cs)
  have "extends s2 (snd (setupFunctions e fs callback s2))" by (rule extends_setupFunctions)
  then have x: "calls s3 = calls s2 @ new_calls s2 s3" by (simp add: st extends_def)
  have c: "setCurrentUsbFunctions e fs callback s =
      (if status3 \<noteq> SUCCESS then report_error fs callback status3 s3 else s3)"
    unfolding cyc using nz v2 by simp
  have b: "calls (setCurrentUsbFunctions e fs callback s) =
        calls s2 @ new_calls s2 s3 @
        (if callback \<and> status3 \<noteq> SUCCESS then [EvCallback fs status3] else [])"
    "linked (setCurrentUsbFunctions e fs callback s) = linked s3"
    "vidpid (setCurrentUsbFunctions e fs callback s) = vidpid s3"
    unfolding c using x by (simp_all add: report_error_def called_def)
  have r: "status3 = fst (setupFunctions e fs callback s2)"
    "s3 = snd (setupFunctions e fs callback s2)"
    by (simp_all add: st)
  show ?thesis
    by (rule exI [of _ s2],
        rule exI [of _ "new_calls s2 (snd (setupFunctions e fs callback s2))"],
        insert a b x, unfold r, intro conjI; assumption)
qed


lemma cycle_table_ids:
  assumes td: "\<not> reset_fails e"
    and udc: "GetProperty e USB_CONTROLLER_PROP [] \<noteq> []"
    and nolink: "\<forall>n i. \<not> link_fails e n i" and novp: "\<forall>v p. \<not> setvidpid_fails e v p"
    and pu: "\<not> pullup_write_fails e"
  shows "vidpid (setCurrentUsbFunctions e (GF_ADB OR GF_RNDIS) callback s) =
           map_of supported_compositions (rndis_adb_comp (getModemType e))"
    and "vidpid (setCurrentUsbFunctions e GF_RNDIS callback s) = Some (''0x18d1'', ''0x4ee3'')"
    and "generic_nodes e GF_ADB = [] \<Longrightarrow>
         \<forall>t\<in>set (tokens [] (adb_only_comp e)). map_of supported_funcs t \<noteq> None \<Longrightarrow>
         map_of supported_compositions (adb_only_comp e) \<noteq> None \<Longrightarrow>
         vidpid (setCurrentUsbFunctions e GF_ADB callback s) =
           map_of supported_compositions (adb_only_comp e)"
proof -
  have nv: "\<not> setvidpid_fails e v p" for v p using novp by simp
  from cycle_validated [OF td generic_ids_values(1) nv, where callback = callback and s = s] obtain s2 where
    "vidpid (setCurrentUsbFunctions e (GF_ADB OR GF_RNDIS) callback s) =
       vidpid (snd (setupFunctions e (GF_ADB OR GF_RNDIS) callback s2))"
    by auto
  then show "vidpid (setCurrentUsbFunctions e (GF_ADB OR GF_RNDIS) callback s) =
           map_of supported_compositions (rndis_adb_comp (getModemType e))"
    using rndis_adb_vidpid [OF gf_bits_adb_rndis(1,2) udc nolink novp, of callback s2] by simp
  from cycle_validated [OF td generic_ids_values(2) nv, where callback = callback and s = s] obtain s2 where
    "vidpid s2 = Some (''0x18d1'', ''0x4ee3'')" and
    "vidpid (setCurrentUsbFunctions e GF_RNDIS callback s) =
       vidpid (snd (setupFunctions e GF_RNDIS callback s2))"
    by auto
  then show "vidpid (setCurrentUsbFunctions e GF_RNDIS callback s) =
      Some (''0x18d1'', ''0x4ee3'')"
    using rndis_only_vidpid [OF gf_bits_adb_rndis(3,4) udc nolink pu, of callback s2] by simp
  assume gen: "generic_nodes e GF_ADB = []"
    and toks: "\<forall>t\<in>set (tokens [] (adb_only_comp e)). map_of supported_funcs t \<noteq> None"
    and row: "map_of supported_compositions (adb_only_comp e) \<noteq> None"
  have cmp: "adb_only_comp e =
      (if GetProperty e VENDOR_USB_PROP (GetProperty e PERSIST_VENDOR_USB_PROP []) = []
       then adb_default_comp (getModemType e)
       else (if str_find (GetProperty e VENDOR_USB_PROP
                 (GetProperty e PERSIST_VENDOR_USB_PROP [])) ''adb'' = npos
             then GetProperty e VENDOR_USB_PROP (GetProperty e PERSIST_VENDOR_USB_PROP [])
                    @ '',adb''
             else GetProperty e VENDOR_USB_PROP (GetProperty e PERSIST_VENDOR_USB_PROP [])))"
    by (simp add: adb_only_comp_def Let_def)
  from cycle_validated [OF td generic_ids_values(3) nv, where callback = callback and s = s] obtain s2 where
    "vidpid (setCurrentUsbFunctions e GF_ADB callback s) =
       vidpid (snd (setupFunctions e GF_ADB callback s2))"
    by auto
  then show "vidpid (setCurrentUsbFunctions e GF_ADB callback s) =
           map_of supported_compositions (adb_only_comp e)"
    using adb_only_vidpid [OF gf_bits(4,3) gen udc nolink novp refl refl cmp toks row,
        of callback s2]
    by simp
qed

lemma setupFunctions_steps:
  assumes udc: "GetProperty e USB_CONTROLLER_PROP [] \<noteq> []"
  shows "\<exists>st1 s1 st2 s2 st3 s3.
     unpulled s s1 \<and> unpulled s s2 \<and> unpulled s s3 \<and>
     extends s s1 \<and> extends s s2 \<and> extends s s3 \<and>
     setup_points e fs s =
       s1 # (if st1 \<noteq> SUCCESS then [] else s2 # (if st2 \<noteq> SUCCESS then [] else [s3])) \<and>
     setupFunctions e fs callback s =
       (if st1 \<noteq> SUCCESS then (ERROR, s1)
        else if st2 \<noteq> SUCCESS then (ERROR, s2)
        else if st3 \<noteq> SUCCESS then (ERROR, s3)
        else pull_up e fs callback (GetProperty e USB_CONTROLLER_PROP [])
               (ffs_enabled e fs) s3)"
proof -
  let ?m = "getModemType e"
  let ?vp = "GetProperty e VENDOR_USB_PROP (GetProperty e PERSIST_VENDOR_USB_PROP [])"
  obtain st1 ffs1 i1 s1 where p1: "setup_first e fs ?m s = (st1, ffs1, i1, s1)"
    by (cases "setup_first e fs ?m s") auto
  obtain st2 i2 s2 where p2: "setup_override e fs ?m ?vp i1 s1 = (st2, i2, s2)"
    by (cases "setup_override e fs ?m ?vp i1 s1") auto
  obtain st3 ffs3 s3 where p3: "enable_adb e fs ffs1 i2 s2 = (st3, ffs3, s3)"
    by (cases "enable_adb e fs ffs1 i2 s2") auto
  have "unpulled s (snd (snd (snd (setup_first e fs ?m s))))"
    by (rule unpulled_setup_first)
  then have u1: "unpulled s s1" by (simp add: p1)
  have "unpulled s1 (snd (snd (setup_override e fs ?m ?vp i1 s1)))"
    by (rule unpulled_setup_override)
  then have u2: "unpulled s s2" using unpulled_trans [OF u1] by (simp add: p2)
  have "unpulled s2 (snd (snd (enable_adb e fs ffs1 i2 s2)))"
    by (rule unpulled_enable_adb)
  then have u3: "unpulled s s3" using unpulled_trans [OF u2] by (simp add: p3)
  have "extends s (snd (snd (snd (setup_first e fs ?m s))))"
    by (rule only_links_extends [OF only_links_setup_first])
  then have x1: "extends s s1" by (simp add: p1)
  have "extends s1 (snd (snd (setup_override e fs ?m ?vp i1 s1)))"
    by (rule extends_setup_override)
  then have x2: "extends s s2" using extends_trans [OF x1] by (simp add: p2)
  have "extends s2 (snd (snd (enable_adb e fs ffs1 i2 s2)))"
    by (rule only_links_extends [OF only_links_enable_adb])
  then have x3: "extends s s3" using extends_trans [OF x2] by (simp add: p3)
  have f1: "ffs1 = (fs AND GF_RNDIS = 0 \<and> generic_ffs e fs)"
    using setup_first_ffs [of e fs "getModemType e" s] by (simp add: p1)
  have "ffs3 = (fs AND GF_ADB \<noteq> 0 \<or> ffs1)"
    using enable_adb_ffs [of e fs ffs1 i2 s2] by (simp add: p3)
  then have f3: "ffs3 = ffs_enabled e fs"
    by (simp add: f1 ffs_enabled_def)
  have run: "setupFunctions e fs callback s =
      (if st1 \<noteq> SUCCESS then (ERROR, s1)
       else if st2 \<noteq> SUCCESS then (ERROR, s2)
       else if st3 \<noteq> SUCCESS then (ERROR, s3)
       else pull_up e fs callback (GetProperty e USB_CONTROLLER_PROP [])
              (ffs_enabled e fs) s3)"
    unfolding setupFunctions_def Let_def using udc by (simp add: p1 p2 p3 f3)
  have pts: "setup_points e fs s =
       s1 # (if st1 \<noteq> SUCCESS then [] else s2 # (if st2 \<noteq> SUCCESS then [] else [s3]))"
    unfolding setup_points_def Let_def using udc by (simp add: p1 p2 p3)
  from u1 u2 u3 x1 x2 x3 run pts show ?thesis by blast
qed

lemma setup_points_frame:
  assumes "p \<in> set (setup_points e fs s)"
  shows "unpulled s p \<and> extends s p"
proof (cases "GetProperty e USB_CONTROLLER_PROP [] = []")
  case True
  with assms show ?thesis by (simp add: setup_points_def)
next
  case False
  from setupFunctions_steps [OF False, of s fs True] obtain st1 s1 st2 s2 st3 s3 where
    "unpulled s s1" "unpulled s s2" "unpulled s s3"
    "extends s s1" "extends s s2" "extends s s3"
    "setup_points e fs s =
       s1 # (if st1 \<noteq> SUCCESS then [] else s2 # (if st2 \<noteq> SUCCESS then [] else [s3]))"
    by blast
  with assms show ?thesis by (auto split: if_splits)
qed

lemma setupFunctions_from_points:
  "setupFunctions e fs callback s = (ERROR, last (s # setup_points e fs s)) \<or>
   setupFunctions e fs callback s =
     pull_up e fs callback (GetProperty e USB_CONTROLLER_PROP []) (ffs_enabled e fs)
       (last (s # setup_points e fs s))"
proof (cases "GetProperty e USB_CONTROLLER_PROP [] = []")
  case True
  then show ?thesis by (simp add: setup_points_def setupFunctions_def)
next
  case False
  from setupFunctions_steps [OF False, of s fs callback] obtain st1 s1 st2 s2 st3 s3 where
    pts: "setup_points e fs s =
       s1 # (if st1 \<noteq> SUCCESS then [] else s2 # (if st2 \<noteq> SUCCESS then [] else [s3]))"
    and run: "setupFunctions e fs callback s =
       (if st1 \<noteq> SUCCESS then (ERROR, s1)
        else if st2 \<noteq> SUCCESS then (ERROR, s2)
        else if st3 \<noteq> SUCCESS then (ERROR, s3)
        else pull_up e fs callback (GetProperty e USB_CONTROLLER_PROP [])
               (ffs_enabled e fs) s3)"
    by blast
  show ?thesis unfolding pts run by simp
qed

lemma tearDownGadget_calls:
  "\<exists>c. calls (snd (tearDownGadget e s)) = calls s @ EvResetGadget # c"
  by (simp add: tearDownGadget_def resetGadget_def Let_def called_def)

text \<open>
  The points of a cycle: at each of them the mask is the requested one and the flag is
  false; at each but the first the teardown has been called; and the cycle ends one
  pull-up step and one call of the callback, at most, after the last of them.
\<close>

lemma cycle_points_frame:
  shows "p \<in> set (cycle_points e fs s) \<Longrightarrow>
           mCurrentUsbFunctions p = fs \<and> \<not> mCurrentUsbFunctionsApplied p"
    and "q \<in> set (tl (cycle_points e fs s)) \<Longrightarrow> \<exists>c. calls q = calls s @ EvResetGadget # c"
proof -
  let ?s0 = "s\<lparr>mCurrentUsbFunctions := fs, mCurrentUsbFunctionsApplied := False\<rparr>"
  obtain st1 s1 where td1: "tearDownGadget e ?s0 = (st1, s1)"
    by (cases "tearDownGadget e ?s0") auto
  obtain status2 s2 where v: "validateAndSetVidPid e fs s1 = (status2, s2)"
    by (cases "validateAndSetVidPid e fs s1") auto
  have m1: "mCurrentUsbFunctions s1 = fs \<and> \<not> mCurrentUsbFunctionsApplied s1"
    using tearDownGadget_members [of e ?s0] by (simp add: td1)
  from tearDownGadget_calls [of e ?s0] obtain c1 where
    c1: "calls s1 = calls s @ EvResetGadget # c1" by (auto simp: td1)
  have "unpulled s1 (snd (validateAndSetVidPid e fs s1))"
    by (rule unpulled_validateAndSetVidPid)
  then have u2: "unpulled s1 s2" by (simp add: v)
  have "extends s1 (snd (validateAndSetVidPid e fs s1))"
    by (rule only_links_extends [OF only_links_validateAndSetVidPid])
  then have x2: "extends s1 s2" by (simp add: v)
  have later: "mCurrentUsbFunctions t = fs \<and> \<not> mCurrentUsbFunctionsApplied t \<and>
      (\<exists>c. calls t = calls s @ EvResetGadget # c)"
    if "unpulled s1 t" and "extends s1 t" for t
  proof -
    from that(2) have "calls t = calls s @ EvResetGadget # (c1 @ new_calls s1 t)"
      by (simp add: extends_def c1)
    then have "\<exists>c. calls t = calls s @ EvResetGadget # c" by (rule exI)
    with that(1) m1 show ?thesis by (simp add: unpulled_def)
  qed
  have l1: "mCurrentUsbFunctions s1 = fs \<and> \<not> mCurrentUsbFunctionsApplied s1 \<and>
      (\<exists>c. calls s1 = calls s @ EvResetGadget # c)"
    by (rule later [OF unpulled_refl extends_refl])
  have l2: "mCurrentUsbFunctions s2 = fs \<and> \<not> mCurrentUsbFunctionsApplied s2 \<and>
      (\<exists>c. calls s2 = calls s @ EvResetGadget # c)"
    by (rule later [OF u2 x2])
  have l3: "mCurrentUsbFunctions t = fs \<and> \<not> mCurrentUsbFunctionsApplied t \<and>
      (\<exists>c. calls t = calls s @ EvResetGadget # c)"
    if "t \<in> set (setup_points e fs s2)" for t
  proof -
    from setup_points_frame [OF that] have "unpulled s2 t" and "extends s2 t" by simp_all
    then show ?thesis
      using later [OF unpulled_trans [OF u2] extends_trans [OF x2]] by simp
  qed
  have pts: "cycle_points e fs s =
      ?s0 # s1 # (if st1 \<noteq> SUCCESS then [] else if fs = GF_NONE then []
        else s2 # (if status2 \<noteq> SUCCESS then [] else setup_points e fs s2))"
    unfolding cycle_points_def Let_def by (simp add: td1 v)
  {
    assume "p \<in> set (cycle_points e fs s)"
    then have "p = ?s0 \<or> p = s1 \<or> p = s2 \<or> p \<in> set (setup_points e fs s2)"
      unfolding pts by (auto split: if_splits)
    then show "mCurrentUsbFunctions p = fs \<and> \<not> mCurrentUsbFunctionsApplied p"
      using l1 l2 l3 [of p] by auto
  }
  {
    assume "q \<in> set (tl (cycle_points e fs s))"
    then have "q = s1 \<or> q = s2 \<or> q \<in> set (setup_points e fs s2)"
      unfolding pts by (auto split: if_splits)
    then show "\<exists>c. calls q = calls s @ EvResetGadget # c"
      using l1 l2 l3 [of q] by auto
  }
qed

lemma cycle_from_points:
  "\<exists>t st.
     (t = last (cycle_points e fs s) \<or>
      t = snd (pull_up e fs callback (GetProperty e USB_CONTROLLER_PROP [])
                 (ffs_enabled e fs) (last (cycle_points e fs s)))) \<and>
     (setCurrentUsbFunctions e fs callback s = t \<or>
      setCurrentUsbFunctions e fs callback s = called (EvCallback fs st) t)"
proof -
  let ?s0 = "s\<lparr>mCurrentUsbFunctions := fs, mCurrentUsbFunctionsApplied := False\<rparr>"
  let ?cyc = "setCurrentUsbFunctions e fs callback s"
  let ?pu = "\<lambda>t. pull_up e fs callback (GetProperty e USB_CONTROLLER_PROP [])
                 (ffs_enabled e fs) t"
  obtain st1 s1 where td1: "tearDownGadget e ?s0 = (st1, s1)"
    by (cases "tearDownGadget e ?s0") auto
  obtain status2 s2 where v: "validateAndSetVidPid e fs s1 = (status2, s2)"
    by (cases "validateAndSetVidPid e fs s1") auto
  obtain status3 s3 where st: "setupFunctions e fs callback s2 = (status3, s3)"
    by (cases "setupFunctions e fs callback s2") auto
  have pts: "cycle_points e fs s =
      ?s0 # s1 # (if st1 \<noteq> SUCCESS then [] else if fs = GF_NONE then []
        else s2 # (if status2 \<noteq> SUCCESS then [] else setup_points e fs s2))"
    unfolding cycle_points_def Let_def by (simp add: td1 v)
  have cyc: "?cyc =
      (if st1 \<noteq> SUCCESS then report_error fs callback st1 s1
       else if fs = GF_NONE then report_error fs callback SUCCESS s1
       else if status2 \<noteq> SUCCESS then report_error fs callback status2 s2
       else if status3 \<noteq> SUCCESS then report_error fs callback status3 s3 else s3)"
    unfolding setCurrentUsbFunctions_def Let_def by (simp add: td1 v st report_error_def)
  have fin: "\<exists>t st.
     (t = last (cycle_points e fs s) \<or> t = snd (?pu (last (cycle_points e fs s)))) \<and>
     (?cyc = t \<or> ?cyc = called (EvCallback fs st) t)"
    if "t = last (cycle_points e fs s) \<or> t = snd (?pu (last (cycle_points e fs s)))"
      and "?cyc = t \<or> ?cyc = report_error fs callback st' t" for t st'
  proof -
    from that(2) have "?cyc = t \<or> ?cyc = called (EvCallback fs st') t"
      by (cases callback) (auto simp: report_error_def)
    with that(1) show ?thesis by (intro exI [of _ t] exI [of _ st']) simp
  qed
  show ?thesis
  proof (cases "st1 \<noteq> SUCCESS \<or> fs = GF_NONE")
    case True
    then have "s1 = last (cycle_points e fs s)" by (auto simp: pts)
    moreover from True have "?cyc = report_error fs callback st1 s1 \<or>
        ?cyc = report_error fs callback SUCCESS s1" by (auto simp: cyc)
    ultimately show ?thesis using fin [of s1 st1] fin [of s1 SUCCESS] by auto
  next
    case a: False
    show ?thesis
    proof (cases "status2 \<noteq> SUCCESS")
      case True
      then have "s2 = last (cycle_points e fs s)" using a by (simp add: pts)
      moreover from True a have "?cyc = report_error fs callback status2 s2"
        by (simp add: cyc)
      ultimately show ?thesis using fin [of s2 status2] by simp
    next
      case b: False
      let ?l = "last (s2 # setup_points e fs s2)"
      have l: "last (cycle_points e fs s) = ?l" using a b by (simp add: pts)
      have c: "?cyc = (if status3 \<noteq> SUCCESS then report_error fs callback status3 s3 else s3)"
        using a b by (simp add: cyc)
      from setupFunctions_from_points [of e fs callback s2]
      show ?thesis
      proof
        assume "setupFunctions e fs callback s2 = (ERROR, ?l)"
        then have "status3 = ERROR" and "s3 = ?l" by (simp_all add: st)
        then have "?cyc = report_error fs callback ERROR ?l" by (simp add: c)
        then show ?thesis using fin [of ?l ERROR] by (simp only: l) simp
      next
        assume "setupFunctions e fs callback s2 = ?pu ?l"
        then have "snd (setupFunctions e fs callback s2) = snd (?pu ?l)" by (rule arg_cong)
        then have "s3 = snd (?pu ?l)" unfolding st by (simp only: snd_conv)
        then have "?cyc = snd (?pu ?l) \<or> ?cyc = report_error fs callback status3 (snd (?pu ?l))"
          by (simp add: c)
        then show ?thesis using fin [of "snd (?pu ?l)" status3] by (simp only: l) simp
      qed
    qed
  qed
qed


lemma run_rndis_quiet:
  "setCurrentUsbFunctions quiet GF_RNDIS False idle =
     \<lparr>mCurrentUsbFunctions = 32, mCurrentUsbFunctionsApplied = True,
      linked = [(0, ''rndis'')], vidpid = Some (''0x18d1'', ''0x4ee3''),
      pullup = Some ''a600000.dwc3'', monitorRunning = False,
      calls = [EvResetGadget, EvSetVidPid ''0x18d1'' ''0x4ee3'', EvLink ''rndis'' 0,
        EvPullup ''a600000.dwc3'']\<rparr>"
  "setCurrentUsbFunctions quiet GF_RNDIS True idle =
     \<lparr>mCurrentUsbFunctions = 32, mCurrentUsbFunctionsApplied = True,
      linked = [(0, ''rndis'')], vidpid = Some (''0x18d1'', ''0x4ee3''),
      pullup = Some ''a600000.dwc3'', monitorRunning = False,
      calls = [EvResetGadget, EvSetVidPid ''0x18d1'' ''0x4ee3'', EvLink ''rndis'' 0,
        EvPullup ''a600000.dwc3'', EvCallback 32 SUCCESS]\<rparr>"
  by (simp_all add: model_defs name_defs quiet_def idle_def Let_def)

section \<open>The claims\<close>

text \<open>
  C1. Take a request with the ADB bit for which \<^verbatim>\<open>setupFunctions\<close>, started with no
  function linked, returns \<open>SUCCESS\<close>, on a platform where the ADB node is the node of
  no other function name and is not linked by the generic functions. Then the functions
  linked at the end sit at the indices 0, 1, ... in order, the ADB node is the last of
  them and appears nowhere before, and \<^verbatim>\<open>linkFunction\<close> was called on the ADB node
  exactly once during the run, for that last index: the token \<^verbatim>\<open>adb\<close> of a composition
  string or of the vendor property never makes a link of its own.
\<close>

theorem adb_linked_once_and_last:
  assumes "functions AND GF_ADB \<noteq> 0"
    and "fst (setupFunctions e functions callback s) = SUCCESS"
    and "linked s = []"
    and "\<forall>t. t \<noteq> ''adb'' \<longrightarrow> func_node e t \<noteq> ''ffs.adb''"
    and "''ffs.adb'' \<notin> set (generic_nodes e functions)"
  shows "\<exists>pre. linked (snd (setupFunctions e functions callback s)) =
                 pre @ [(length pre, ''ffs.adb'')] \<and>
               ''ffs.adb'' \<notin> snd ` set pre \<and> map fst pre = [0..<length pre] \<and>
               adb_links (snd (setupFunctions e functions callback s)) =
                 adb_links s @ [EvLink ''ffs.adb'' (length pre)]"
proof -
  from setupFunctions_adb_shape [OF assms] obtain i2 s2 where
    f: "adb_free s s2" and l: "lined_up i2 s2" and nl: "\<not> link_fails e ''ffs.adb'' i2" and
    run: "setupFunctions e functions callback s =
             pull_up e functions callback (GetProperty e USB_CONTROLLER_PROP []) True
               (snd (linkFunction e ''ffs.adb'' i2 s2))"
    by blast
  have len: "length (linked s2) = i2"
    using l by (metis lined_up_def length_map length_upt minus_nat.diff_0)
  have a: "linked (snd (setupFunctions e functions callback s)) =
      linked s2 @ [(length (linked s2), ''ffs.adb'')]"
    unfolding run using nl by (simp add: pull_up_frame linkFunction_linked len)
  have b: "''ffs.adb'' \<notin> snd ` set (linked s2)"
    using f assms(3) by (simp add: adb_free_def)
  have c: "map fst (linked s2) = [0..<length (linked s2)]"
    using l by (simp add: lined_up_def len)
  have d: "adb_links (snd (setupFunctions e functions callback s)) =
      adb_links s @ [EvLink ''ffs.adb'' (length (linked s2))]"
    unfolding run adb_links_pull_up
    using f by (simp add: adb_links_def linkFunction_calls adb_free_def len)
  from a b c d show ?thesis by blast
qed

theorem adb_linked_once_and_last_witness:
  "GF_ADB AND GF_ADB \<noteq> 0 \<and>
   fst (setupFunctions override_diag_foo GF_ADB True idle) = SUCCESS \<and>
   linked (snd (setupFunctions override_diag_foo GF_ADB True idle)) =
     [(0, ''diag.diag''), (1, ''cser.dun.0''), (2, ''gsi.rmnet''), (3, ''gsi.dpl''),
      (4, ''qdss.qdss''), (5, ''ffs.adb'')] \<and>
   (\<exists>pre. linked (snd (setupFunctions override_diag_foo GF_ADB True idle)) =
            pre @ [(length pre, ''ffs.adb'')] \<and>
          ''ffs.adb'' \<notin> snd ` set pre \<and> map fst pre = [0..<length pre] \<and>
          adb_links (snd (setupFunctions override_diag_foo GF_ADB True idle)) =
            [EvLink ''ffs.adb'' (length pre)])"
proof -
  let ?e = override_diag_foo
  have a: "GF_ADB AND GF_ADB \<noteq> 0" by (simp add: GF_ADB_def)
  have b: "fst (setupFunctions ?e GF_ADB True idle) = SUCCESS"
    by (simp add: run_setup_override_diag_foo)
  have c: "linked idle = []" by (simp add: idle_def)
  have d: "\<forall>t. t \<noteq> ''adb'' \<longrightarrow> func_node ?e t \<noteq> ''ffs.adb''"
    by (simp add: func_node_def supported_funcs_def rndisFuncname_def GetProperty_def
          override_diag_foo_def quiet_def name_defs)
  have g: "''ffs.adb'' \<notin> set (generic_nodes ?e GF_ADB)"
    by (simp add: override_diag_foo_def quiet_def GF_ADB_def GF_MTP_def)
  have h: "adb_links idle = []" by (simp add: adb_links_def idle_def)
  have l: "linked (snd (setupFunctions ?e GF_ADB True idle)) =
     [(0, ''diag.diag''), (1, ''cser.dun.0''), (2, ''gsi.rmnet''), (3, ''gsi.dpl''),
      (4, ''qdss.qdss''), (5, ''ffs.adb'')]"
    by (simp add: run_setup_override_diag_foo)
  from adb_linked_once_and_last [OF a b c d g]
  have "\<exists>pre. linked (snd (setupFunctions ?e GF_ADB True idle)) =
            pre @ [(length pre, ''ffs.adb'')] \<and>
          ''ffs.adb'' \<notin> snd ` set pre \<and> map fst pre = [0..<length pre] \<and>
          adb_links (snd (setupFunctions ?e GF_ADB True idle)) =
            [EvLink ''ffs.adb'' (length pre)]"
    by (simp only: h append_Nil)
  with a b l show ?thesis by (intro conjI)
qed

text \<open>
  C2, as the code has it. Take a request with the ADB bit and without the RNDIS bit for
  which the generic functions link nothing, a non-empty vendor property, and no failure of
  a collaborator. The override attempted is the property with \<^verbatim>\<open>,adb\<close> appended when
  the property does not contain \<^verbatim>\<open>adb\<close>. If a token of that override is not in
  \<open>supported_funcs\<close>, or that override is not a key of \<open>supported_compositions\<close>, then
  \<^verbatim>\<open>setupFunctions\<close> succeeds and what is linked at the end is exactly the default
  composition of the modem type, function by function from index 0, with the ids of its
  row: nothing of the attempt is left.
\<close>

theorem failed_override_falls_back_to_default:
  assumes adb: "functions AND GF_ADB \<noteq> 0" and nr: "functions AND GF_RNDIS = 0"
    and gen: "generic_nodes e functions = []"
    and udc: "GetProperty e USB_CONTROLLER_PROP [] \<noteq> []"
    and nolink: "\<forall>n i. \<not> link_fails e n i" and novp: "\<forall>v p. \<not> setvidpid_fails e v p"
    and vp: "vendorProp = GetProperty e VENDOR_USB_PROP (GetProperty e PERSIST_VENDOR_USB_PROP [])"
    and ne: "vendorProp \<noteq> []"
    and ov: "override =
        (if str_find vendorProp ''adb'' = npos then vendorProp @ '',adb'' else vendorProp)"
    and bad: "(\<exists>t\<in>set (tokens [] override). map_of supported_funcs t = None) \<or>
        map_of supported_compositions override = None"
  shows "fst (setupFunctions e functions callback s) = SUCCESS \<and>
         linked (snd (setupFunctions e functions callback s)) =
           zip [0..<length (tokens [] (adb_default_comp (getModemType e)))]
               (map (func_node e) (tokens [] (adb_default_comp (getModemType e)))) \<and>
         vidpid (snd (setupFunctions e functions callback s)) =
           map_of supported_compositions (adb_default_comp (getModemType e))"
proof -
  let ?m = "getModemType e"
  obtain r i1 sa where a: "addFunctionsFromPropString e override 0 False s = (r, i1, sa)"
    by (cases "addFunctionsFromPropString e override 0 False s") auto
  have fallback: "setup_override e functions ?m vendorProp 0 s =
      link_comp e (adb_default_comp ?m) 0 (unlinkFunctions sa)"
  proof (cases "r = 0")
    case False
    then show ?thesis
      using adb ne by (simp add: setup_override_def ov [symmetric] a)
  next
    case True
    have "\<not> (\<exists>t\<in>set (tokens [] override). map_of supported_funcs t = None)"
    proof
      assume "\<exists>t\<in>set (tokens [] override). map_of supported_funcs t = None"
      from addFunctions_fails_unsupported [OF this, of e 0 s] a True show False
        by (simp add: addFunctionsFromPropString_def)
    qed
    with bad have "map_of supported_compositions override = None" by blast
    then have "lookupAndSetVidPid e override sa = (- 1, sa)"
      by (rule lookupAndSetVidPid_unsupported)
    then show ?thesis
      using adb ne True by (simp add: setup_override_def ov [symmetric] a)
  qed
  from default_then_adb [OF nolink novp unlinkFunctions_linked, of ?m sa]
  obtain k s1 where
    d: "link_comp e (adb_default_comp ?m) 0 (unlinkFunctions sa) = (SUCCESS, k, s1)" and
    l: "linked (snd (linkFunction e ''ffs.adb'' k s1)) =
          zip [0..<length (tokens [] (adb_default_comp ?m))]
              (map (func_node e) (tokens [] (adb_default_comp ?m)))" and
    v: "vidpid s1 = map_of supported_compositions (adb_default_comp ?m)"
    by blast
  have nl: "\<not> link_fails e ''ffs.adb'' k" using nolink by simp
  have run: "setupFunctions e functions callback s =
      pull_up e functions callback (GetProperty e USB_CONTROLLER_PROP []) True
        (snd (linkFunction e ''ffs.adb'' k s1))"
    unfolding setupFunctions_def Let_def vp [symmetric]
    using udc
    by (simp add: setup_first_generic_nothing [OF nr gen] fallback d
          enable_adb_ok [OF adb nl])
  show ?thesis
    unfolding run by (simp add: pull_up_frame pull_up_monitor_status l linkFunction_frame v)
qed

theorem failed_override_falls_back_to_default_witness:
  "map_of supported_funcs ''foo'' = None \<and>
   fst (setupFunctions override_diag_foo GF_ADB True idle) = SUCCESS \<and>
   linked (snd (setupFunctions override_diag_foo GF_ADB True idle)) =
     [(0, ''diag.diag''), (1, ''cser.dun.0''), (2, ''gsi.rmnet''), (3, ''gsi.dpl''),
      (4, ''qdss.qdss''), (5, ''ffs.adb'')] \<and>
   vidpid (snd (setupFunctions override_diag_foo GF_ADB True idle)) =
     Some (''0x05C6'', ''0x90DB'')"
proof -
  let ?e = override_diag_foo
  have foo: "map_of supported_funcs ''foo'' = None" by (simp add: supported_funcs_def)
  have adb: "GF_ADB AND GF_ADB \<noteq> 0" and nr: "GF_ADB AND GF_RNDIS = 0"
    by (simp_all add: GF_ADB_def GF_RNDIS_def)
  have gen: "generic_nodes ?e GF_ADB = []"
    by (simp add: override_diag_foo_def quiet_def GF_ADB_def GF_MTP_def)
  have udc: "GetProperty ?e USB_CONTROLLER_PROP [] \<noteq> []"
    by (simp add: GetProperty_def override_diag_foo_def quiet_def name_defs)
  have nl: "\<forall>n i. \<not> link_fails ?e n i" and nv: "\<forall>v p. \<not> setvidpid_fails ?e v p"
    by (simp_all add: override_diag_foo_def quiet_def)
  have vp: "''diag,foo'' = GetProperty ?e VENDOR_USB_PROP (GetProperty ?e PERSIST_VENDOR_USB_PROP [])"
    by (simp add: GetProperty_def override_diag_foo_def quiet_def name_defs)
  have ne: "''diag,foo'' \<noteq> []" by simp
  have ov: "''diag,foo,adb'' =
      (if str_find ''diag,foo'' ''adb'' = npos then ''diag,foo'' @ '',adb'' else ''diag,foo'')"
    by (simp add: str_find_def size_t_of_def)
  have bad: "(\<exists>t\<in>set (tokens [] ''diag,foo,adb''). map_of supported_funcs t = None) \<or>
      map_of supported_compositions ''diag,foo,adb'' = None"
    using foo by simp
  have mt: "getModemType ?e = INTERNAL"
    by (simp add: getModemType_def override_diag_foo_def quiet_def)
  have nodes: "map (func_node ?e) [''diag'', ''serial_cdev'', ''rmnet'', ''dpl'', ''qdss'', ''adb''] =
      [''diag.diag'', ''cser.dun.0'', ''gsi.rmnet'', ''gsi.dpl'', ''qdss.qdss'', ''ffs.adb'']"
    by (simp add: func_node_def supported_funcs_def GetProperty_def override_diag_foo_def
          quiet_def name_defs)
  show ?thesis
    using failed_override_falls_back_to_default [OF adb nr gen udc nl nv vp ne ov bad, of True idle]
    unfolding mt adb_default_comp.simps tokens_defaults nodes
    by (simp add: foo rows_defaults upt_conv_Cons del: upt_Suc)
qed

text \<open>
  C2, as stated, fails: the vendor property \<^verbatim>\<open>diag,qdss,dpl\<close> is not empty and has no
  row in \<open>supported_compositions\<close>, yet nothing is rolled back. The code appends
  \<^verbatim>\<open>,adb\<close>, finds the row of \<^verbatim>\<open>diag,qdss,dpl,adb\<close> and keeps the composition of the
  property, which is not the default composition of the modem type.
\<close>

theorem override_without_row_is_kept:
  "GetProperty override_diag_qdss_dpl VENDOR_USB_PROP
     (GetProperty override_diag_qdss_dpl PERSIST_VENDOR_USB_PROP []) = ''diag,qdss,dpl'' \<and>
   map_of supported_compositions ''diag,qdss,dpl'' = None \<and>
   getModemType override_diag_qdss_dpl = INTERNAL \<and>
   linked (snd (setupFunctions override_diag_qdss_dpl GF_ADB True idle)) =
     [(0, ''diag.diag''), (1, ''qdss.qdss''), (2, ''gsi.dpl''), (3, ''ffs.adb'')] \<and>
   vidpid (snd (setupFunctions override_diag_qdss_dpl GF_ADB True idle)) =
     Some (''0x05C6'', ''0x9104'') \<and>
   EvUnlinkFunctions \<notin> set (calls (snd (setupFunctions override_diag_qdss_dpl GF_ADB True idle)))"
  unfolding run_setup_override_diag_qdss_dpl
  by (simp add: GetProperty_def override_diag_qdss_dpl_def quiet_def name_defs
        getModemType_def supported_compositions_def)




text \<open>
  C4, as the code has it. When the esoc directory can be opened and the machine string
  can be read, and that string contains \<^verbatim>\<open>SDA\<close> or ends with \<^verbatim>\<open>P\<close>, the modem type
  is \<open>NONE\<close> only if the scan found no external modem; when the scan found one, the
  type stays \<open>EXTERNAL\<close> (and is not refined to \<open>INTERNAL_EXTERNAL\<close>).
\<close>

theorem marker_keeps_external:
  assumes "esoc_dir e = Some entries" and "soc_machine e = Some machine"
    and "length machine < 2 ^ 64"
    and "(\<exists>u v. machine = u @ ''SDA'' @ v) \<or> (machine \<noteq> [] \<and> last machine = CHR ''P'')"
  shows "getModemType e = (if scan_esoc entries = EXTERNAL then EXTERNAL else NONE)"
proof -
  have marker: "str_find machine ''SDA'' \<noteq> npos \<or>
      str_find_last_of machine CHR ''P'' = word_of_nat (length machine) - 1"
    using assms(4)
  proof
    assume "\<exists>u v. machine = u @ ''SDA'' @ v"
    then obtain u v where "machine = u @ ''SDA'' @ v" by auto
    from str_find_contains [OF this _ assms(3)] show ?thesis by simp
  next
    assume "machine \<noteq> [] \<and> last machine = CHR ''P''"
    then show ?thesis using str_find_last_of_last by simp
  qed
  show ?thesis
    using marker scan_esoc_cases [of entries]
    by (auto simp: getModemType_def assms(1,2) Let_def)
qed

theorem marker_keeps_external_witness:
  "''SDA845'' = [] @ ''SDA'' @ ''845'' \<and> getModemType sda_with_mdm = EXTERNAL"
proof -
  have a: "esoc_dir sda_with_mdm = Some [(''.'', None), (''esoc0'', Some ''MDM9x55'')]"
    and b: "soc_machine sda_with_mdm = Some ''SDA845''"
    by (simp_all add: sda_with_mdm_def)
  have c: "length ''SDA845'' < 2 ^ 64" by simp
  have d: "(\<exists>u v. ''SDA845'' = u @ ''SDA'' @ v) \<or> (''SDA845'' \<noteq> [] \<and> last ''SDA845'' = CHR ''P'')"
    by (rule disjI1, rule exI [of _ "[]"], rule exI [of _ "''845''"]) simp
  have e: "scan_esoc [(''.'', None), (''esoc0'', Some ''MDM9x55'')] = EXTERNAL"
    by (simp add: str_find_def size_t_of_def npos_def)
  show ?thesis using marker_keeps_external [OF a b c d, unfolded e] by simp
qed

text \<open>
  C4, as stated, fails: with an external modem found by the scan and a machine string
  that contains the marker, the type returned is \<open>EXTERNAL\<close>, not \<open>NONE\<close>.
\<close>

theorem marker_does_not_override_external:
  "str_find ''SDA845'' ''SDA'' \<noteq> npos \<and>
   scan_esoc [(''.'', None), (''esoc0'', Some ''MDM9x55'')] = EXTERNAL \<and>
   getModemType sda_with_mdm \<noteq> NONE"
  by (simp add: sda_with_mdm_def getModemType_def str_find_def str_find_last_of_def
        size_t_of_def npos_def Let_def)

text \<open>
  C5. When the request is None and the teardown succeeds, the cycle calls nothing after
  the teardown but the callback, to which it passes \<open>SUCCESS\<close>: it links no function,
  sets no ids, writes no pull-up and does not start the monitor. The cycle ends there,
  successfully; the applied flag, cleared at the start of the cycle, stays false.
\<close>

theorem none_request_links_nothing:
  assumes "\<not> reset_fails e"
  shows "calls (setCurrentUsbFunctions e GF_NONE callback s) =
           calls s @ EvResetGadget # (if monitorRunning s then [EvMonitorReset] else []) @
           (if callback then [EvCallback GF_NONE SUCCESS] else []) \<and>
         linked (setCurrentUsbFunctions e GF_NONE callback s) = [] \<and>
         vidpid (setCurrentUsbFunctions e GF_NONE callback s) = None \<and>
         pullup (setCurrentUsbFunctions e GF_NONE callback s) = None \<and>
         \<not> monitorRunning (setCurrentUsbFunctions e GF_NONE callback s) \<and>
         getCurrentUsbFunctions (setCurrentUsbFunctions e GF_NONE callback s) =
           (GF_NONE, FUNCTIONS_NOT_APPLIED)"
  using assms
  by (simp add: setCurrentUsbFunctions_def tearDownGadget_def resetGadget_def Let_def
        called_def getCurrentUsbFunctions_def)

theorem none_request_links_nothing_witness:
  "\<not> reset_fails quiet \<and>
   calls (setCurrentUsbFunctions quiet GF_NONE True idle) =
     [EvResetGadget, EvCallback GF_NONE SUCCESS] \<and>
   linked (setCurrentUsbFunctions quiet GF_NONE True idle) = []"
proof -
  have a: "\<not> reset_fails quiet" by (simp add: quiet_def)
  show ?thesis using none_request_links_nothing [OF a, of True idle] a by (simp add: idle_def)
qed

text \<open>
  C6, as the code has it. The generic validation sets the ids \<open>generic_ids\<close> gives for
  the mask, and rejects the mask when it gives none. After a successful teardown it is
  applied to every request that is not None, whatever its branch, and before
  \<^verbatim>\<open>setupFunctions\<close> runs. When the mask is none of the fifteen of the validation,
  nothing else is called but the callback, with \<open>CONFIGURATION_NOT_SUPPORTED\<close>, and
  nothing is linked. When it is one of them, the first call after the teardown is the
  \<^verbatim>\<open>setVidPid\<close> of the validation with the ids of the mask; if that fails nothing else
  is called but the callback, with \<open>ERROR\<close>; if not, \<^verbatim>\<open>setupFunctions\<close> starts from
  a state with these ids and nothing linked, all its calls come after, and the cycle ends
  with what it links and with its ids. A mask that contains Rndis is one of the fifteen
  only if it is Rndis or Rndis|Adb. When no collaborator fails, the ids at the end of the
  cycle are those of the row of \<open>supported_compositions\<close> for Rndis|Adb (the RNDIS+ADB
  default of the modem type) and for Adb alone with nothing linked by the generic
  functions (the override or the default composition, when its tokens and its row are
  supported), and they are still those of the validation for Rndis alone.
\<close>

theorem generic_validation_on_every_branch:
  assumes td: "\<not> reset_fails e" and nz: "functions \<noteq> GF_NONE"
  shows "(\<forall>t. validateAndSetVidPid e functions t =
            (case generic_ids functions of
               None \<Rightarrow> (CONFIGURATION_NOT_SUPPORTED, t)
             | Some (v, p) \<Rightarrow> setVidPid e v p t)) \<and>
         (case generic_ids functions of
            None \<Rightarrow>
              calls (setCurrentUsbFunctions e functions callback s) =
                calls s @ EvResetGadget # (if monitorRunning s then [EvMonitorReset] else []) @
                (if callback then [EvCallback functions CONFIGURATION_NOT_SUPPORTED] else []) \<and>
              linked (setCurrentUsbFunctions e functions callback s) = []
          | Some (v, p) \<Rightarrow>
              (setvidpid_fails e v p \<longrightarrow>
                 calls (setCurrentUsbFunctions e functions callback s) =
                   calls s @ EvResetGadget #
                     (if monitorRunning s then [EvMonitorReset] else []) @
                   EvSetVidPid v p # (if callback then [EvCallback functions ERROR] else []) \<and>
                 linked (setCurrentUsbFunctions e functions callback s) = []) \<and>
              (\<not> setvidpid_fails e v p \<longrightarrow>
                 (\<exists>s2 c. vidpid s2 = Some (v, p) \<and> linked s2 = [] \<and>
                    calls s2 =
                      calls s @ EvResetGadget #
                        (if monitorRunning s then [EvMonitorReset] else []) @
                      [EvSetVidPid v p] \<and>
                    calls (snd (setupFunctions e functions callback s2)) = calls s2 @ c \<and>
                    calls (setCurrentUsbFunctions e functions callback s) =
                      calls s2 @ c @
                      (if callback \<and> fst (setupFunctions e functions callback s2) \<noteq> SUCCESS
                       then [EvCallback functions (fst (setupFunctions e functions callback s2))]
                       else []) \<and>
                    linked (setCurrentUsbFunctions e functions callback s) =
                      linked (snd (setupFunctions e functions callback s2)) \<and>
                    vidpid (setCurrentUsbFunctions e functions callback s) =
                      vidpid (snd (setupFunctions e functions callback s2))))) \<and>
         (functions AND GF_RNDIS \<noteq> 0 \<longrightarrow>
            (generic_ids functions \<noteq> None \<longleftrightarrow>
               functions = GF_RNDIS \<or> functions = GF_ADB OR GF_RNDIS)) \<and>
         (GetProperty e USB_CONTROLLER_PROP [] \<noteq> [] \<and> (\<forall>n i. \<not> link_fails e n i) \<and>
          (\<forall>v p. \<not> setvidpid_fails e v p) \<and> \<not> pullup_write_fails e \<longrightarrow>
            (functions = GF_ADB OR GF_RNDIS \<longrightarrow>
               generic_ids functions = Some (''0x18d1'', ''0x4ee4'') \<and>
               vidpid (setCurrentUsbFunctions e functions callback s) =
                 map_of supported_compositions (rndis_adb_comp (getModemType e))) \<and>
            (functions = GF_RNDIS \<longrightarrow>
               generic_ids functions = Some (''0x18d1'', ''0x4ee3'') \<and>
               vidpid (setCurrentUsbFunctions e functions callback s) =
                 Some (''0x18d1'', ''0x4ee3'')) \<and>
            (functions = GF_ADB \<and> generic_nodes e GF_ADB = [] \<and>
             (\<forall>t\<in>set (tokens [] (adb_only_comp e)). map_of supported_funcs t \<noteq> None) \<and>
             map_of supported_compositions (adb_only_comp e) \<noteq> None \<longrightarrow>
               generic_ids functions = Some (''0x18d1'', ''0x4ee7'') \<and>
               vidpid (setCurrentUsbFunctions e functions callback s) =
                 map_of supported_compositions (adb_only_comp e)))"
proof -
  let ?cyc = "setCurrentUsbFunctions e functions callback s"
  have first: "(case generic_ids functions of
            None \<Rightarrow>
              calls ?cyc =
                calls s @ EvResetGadget # (if monitorRunning s then [EvMonitorReset] else []) @
                (if callback then [EvCallback functions CONFIGURATION_NOT_SUPPORTED] else []) \<and>
              linked ?cyc = []
          | Some (v, p) \<Rightarrow>
              (setvidpid_fails e v p \<longrightarrow>
                 calls ?cyc =
                   calls s @ EvResetGadget #
                     (if monitorRunning s then [EvMonitorReset] else []) @
                   EvSetVidPid v p # (if callback then [EvCallback functions ERROR] else []) \<and>
                 linked ?cyc = []) \<and>
              (\<not> setvidpid_fails e v p \<longrightarrow>
                 (\<exists>s2 c. vidpid s2 = Some (v, p) \<and> linked s2 = [] \<and>
                    calls s2 =
                      calls s @ EvResetGadget #
                        (if monitorRunning s then [EvMonitorReset] else []) @
                      [EvSetVidPid v p] \<and>
                    calls (snd (setupFunctions e functions callback s2)) = calls s2 @ c \<and>
                    calls ?cyc =
                      calls s2 @ c @
                      (if callback \<and> fst (setupFunctions e functions callback s2) \<noteq> SUCCESS
                       then [EvCallback functions (fst (setupFunctions e functions callback s2))]
                       else []) \<and>
                    linked ?cyc = linked (snd (setupFunctions e functions callback s2)) \<and>
                    vidpid ?cyc = vidpid (snd (setupFunctions e functions callback s2)))))"
  proof (cases "generic_ids functions")
    case None
    from cycle_rejected [OF td nz None, where callback = callback and s = s] show ?thesis by (simp add: None)
  next
    case (Some vp)
    obtain v p where vp: "vp = (v, p)" by (cases vp) auto
    note g = Some [unfolded vp]
    show ?thesis
      unfolding g option.case prod.case
    proof (intro conjI impI)
      assume "setvidpid_fails e v p"
      from cycle_validation_fails [OF td g this, where callback = callback and s = s]
      show "calls ?cyc =
                   calls s @ EvResetGadget #
                     (if monitorRunning s then [EvMonitorReset] else []) @
                   EvSetVidPid v p # (if callback then [EvCallback functions ERROR] else [])"
        and "linked ?cyc = []"
        by simp_all
    next
      assume "\<not> setvidpid_fails e v p"
      from cycle_validated [OF td g this, where callback = callback and s = s]
      show "\<exists>s2 c. vidpid s2 = Some (v, p) \<and> linked s2 = [] \<and>
                    calls s2 =
                      calls s @ EvResetGadget #
                        (if monitorRunning s then [EvMonitorReset] else []) @
                      [EvSetVidPid v p] \<and>
                    calls (snd (setupFunctions e functions callback s2)) = calls s2 @ c \<and>
                    calls ?cyc =
                      calls s2 @ c @
                      (if callback \<and> fst (setupFunctions e functions callback s2) \<noteq> SUCCESS
                       then [EvCallback functions (fst (setupFunctions e functions callback s2))]
                       else []) \<and>
                    linked ?cyc = linked (snd (setupFunctions e functions callback s2)) \<and>
                    vidpid ?cyc = vidpid (snd (setupFunctions e functions callback s2))" .
    qed
  qed
  have second: "functions AND GF_RNDIS \<noteq> 0 \<longrightarrow>
            (generic_ids functions \<noteq> None \<longleftrightarrow>
               functions = GF_RNDIS \<or> functions = GF_ADB OR GF_RNDIS)"
    using generic_ids_rndis [of "functions"] by simp
  have third: "GetProperty e USB_CONTROLLER_PROP [] \<noteq> [] \<and> (\<forall>n i. \<not> link_fails e n i) \<and>
          (\<forall>v p. \<not> setvidpid_fails e v p) \<and> \<not> pullup_write_fails e \<longrightarrow>
            (functions = GF_ADB OR GF_RNDIS \<longrightarrow>
               generic_ids functions = Some (''0x18d1'', ''0x4ee4'') \<and>
               vidpid ?cyc = map_of supported_compositions (rndis_adb_comp (getModemType e))) \<and>
            (functions = GF_RNDIS \<longrightarrow>
               generic_ids functions = Some (''0x18d1'', ''0x4ee3'') \<and>
               vidpid ?cyc = Some (''0x18d1'', ''0x4ee3'')) \<and>
            (functions = GF_ADB \<and> generic_nodes e GF_ADB = [] \<and>
             (\<forall>t\<in>set (tokens [] (adb_only_comp e)). map_of supported_funcs t \<noteq> None) \<and>
             map_of supported_compositions (adb_only_comp e) \<noteq> None \<longrightarrow>
               generic_ids functions = Some (''0x18d1'', ''0x4ee7'') \<and>
               vidpid ?cyc = map_of supported_compositions (adb_only_comp e))"
  proof
    assume h: "GetProperty e USB_CONTROLLER_PROP [] \<noteq> [] \<and> (\<forall>n i. \<not> link_fails e n i) \<and>
          (\<forall>v p. \<not> setvidpid_fails e v p) \<and> \<not> pullup_write_fails e"
    then have udc: "GetProperty e USB_CONTROLLER_PROP [] \<noteq> []"
      and nolink: "\<forall>n i. \<not> link_fails e n i" and novp: "\<forall>v p. \<not> setvidpid_fails e v p"
      and pu: "\<not> pullup_write_fails e"
      by simp_all
    note t = cycle_table_ids [OF td udc nolink novp pu, of callback s]
    have p1: "functions = GF_ADB OR GF_RNDIS \<longrightarrow>
               generic_ids functions = Some (''0x18d1'', ''0x4ee4'') \<and>
               vidpid ?cyc = map_of supported_compositions (rndis_adb_comp (getModemType e))"
      using t(1) generic_ids_values(1) by simp
    have p2: "functions = GF_RNDIS \<longrightarrow>
               generic_ids functions = Some (''0x18d1'', ''0x4ee3'') \<and>
               vidpid ?cyc = Some (''0x18d1'', ''0x4ee3'')"
      using t(2) generic_ids_values(2) by simp
    have p3: "functions = GF_ADB \<and> generic_nodes e GF_ADB = [] \<and>
             (\<forall>t\<in>set (tokens [] (adb_only_comp e)). map_of supported_funcs t \<noteq> None) \<and>
             map_of supported_compositions (adb_only_comp e) \<noteq> None \<longrightarrow>
               generic_ids functions = Some (''0x18d1'', ''0x4ee7'') \<and>
               vidpid ?cyc = map_of supported_compositions (adb_only_comp e)"
      using t(3) generic_ids_values(3) by simp
    show "(functions = GF_ADB OR GF_RNDIS \<longrightarrow>
               generic_ids functions = Some (''0x18d1'', ''0x4ee4'') \<and>
               vidpid ?cyc = map_of supported_compositions (rndis_adb_comp (getModemType e))) \<and>
            (functions = GF_RNDIS \<longrightarrow>
               generic_ids functions = Some (''0x18d1'', ''0x4ee3'') \<and>
               vidpid ?cyc = Some (''0x18d1'', ''0x4ee3'')) \<and>
            (functions = GF_ADB \<and> generic_nodes e GF_ADB = [] \<and>
             (\<forall>t\<in>set (tokens [] (adb_only_comp e)). map_of supported_funcs t \<noteq> None) \<and>
             map_of supported_compositions (adb_only_comp e) \<noteq> None \<longrightarrow>
               generic_ids functions = Some (''0x18d1'', ''0x4ee7'') \<and>
               vidpid ?cyc = map_of supported_compositions (adb_only_comp e))"
      by (rule conjI [OF p1 conjI [OF p2 p3]])
  qed
  have table: "\<forall>t. validateAndSetVidPid e functions t =
            (case generic_ids functions of
               None \<Rightarrow> (CONFIGURATION_NOT_SUPPORTED, t)
             | Some (v, p) \<Rightarrow> setVidPid e v p t)"
    by (simp add: validate_generic_ids)
  show ?thesis by (rule conjI [OF table conjI [OF first conjI [OF second third]]])
qed

theorem generic_validation_on_every_branch_witness:
  "calls (setCurrentUsbFunctions quiet (GF_MTP OR GF_RNDIS) True idle) =
     [EvResetGadget, EvCallback (GF_MTP OR GF_RNDIS) CONFIGURATION_NOT_SUPPORTED] \<and>
   take 2 (calls (setCurrentUsbFunctions quiet (GF_ADB OR GF_RNDIS) True idle)) =
     [EvResetGadget, EvSetVidPid ''0x18d1'' ''0x4ee4''] \<and>
   vidpid (setCurrentUsbFunctions quiet (GF_ADB OR GF_RNDIS) True idle) =
     Some (''0x05C6'', ''0x90E9'') \<and>
   vidpid (setCurrentUsbFunctions quiet GF_RNDIS True idle) = Some (''0x18d1'', ''0x4ee3'') \<and>
   vidpid (setCurrentUsbFunctions quiet GF_ADB True idle) = Some (''0x05C6'', ''0x90DB'')"
proof -
  have td: "\<not> reset_fails quiet" by (simp add: quiet_def)
  have env: "GetProperty quiet USB_CONTROLLER_PROP [] \<noteq> [] \<and> (\<forall>n i. \<not> link_fails quiet n i) \<and>
          (\<forall>v p. \<not> setvidpid_fails quiet v p) \<and> \<not> pullup_write_fails quiet"
    by (simp add: quiet_def GetProperty_def)
  have nv: "\<not> setvidpid_fails quiet v p" for v p by (simp add: quiet_def)
  have i: "calls idle = [] \<and> \<not> monitorRunning idle" by (simp add: idle_def)
  have mt: "getModemType quiet = INTERNAL" by (simp add: getModemType_def quiet_def)
  have cmp: "adb_only_comp quiet = ''diag,serial_cdev,rmnet,dpl,qdss,adb''"
    by (simp add: adb_only_comp_def GetProperty_def quiet_def name_defs getModemType_def)
  have nz: "GF_MTP OR GF_RNDIS \<noteq> GF_NONE" "GF_ADB OR GF_RNDIS \<noteq> GF_NONE"
    "GF_RNDIS \<noteq> GF_NONE" "GF_ADB \<noteq> GF_NONE"
    by (simp_all add: GF_MTP_def GF_RNDIS_def GF_ADB_def GF_NONE_def)
  have a: "calls (setCurrentUsbFunctions quiet (GF_MTP OR GF_RNDIS) True idle) =
     [EvResetGadget, EvCallback (GF_MTP OR GF_RNDIS) CONFIGURATION_NOT_SUPPORTED]"
    using generic_validation_on_every_branch [OF td nz(1), of True idle] i
    by (simp add: generic_ids_values)
  have b: "take 2 (calls (setCurrentUsbFunctions quiet (GF_ADB OR GF_RNDIS) True idle)) =
     [EvResetGadget, EvSetVidPid ''0x18d1'' ''0x4ee4''] \<and>
   vidpid (setCurrentUsbFunctions quiet (GF_ADB OR GF_RNDIS) True idle) =
     Some (''0x05C6'', ''0x90E9'')"
    using generic_validation_on_every_branch [OF td nz(2), of True idle] env i nv
    by (auto simp add: generic_ids_values mt rows_defaults)
  have c: "vidpid (setCurrentUsbFunctions quiet GF_RNDIS True idle) = Some (''0x18d1'', ''0x4ee3'')"
    using generic_validation_on_every_branch [OF td nz(3), of True idle] env
    by simp
  have gen: "generic_nodes quiet GF_ADB = []" by (simp add: quiet_def GF_ADB_def GF_MTP_def)
  have toks: "\<forall>t\<in>set (tokens [] (adb_only_comp quiet)). map_of supported_funcs t \<noteq> None"
    unfolding cmp using default_tokens_supported(2) [of INTERNAL] by simp
  have row: "map_of supported_compositions (adb_only_comp quiet) \<noteq> None"
    unfolding cmp by (simp add: rows_defaults)
  have d: "vidpid (setCurrentUsbFunctions quiet GF_ADB True idle) = Some (''0x05C6'', ''0x90DB'')"
    using generic_validation_on_every_branch [OF td nz(4), of True idle] env gen toks row
    by (simp add: cmp rows_defaults)
  from a b c d show ?thesis by simp
qed

text \<open>
  C6, as stated, fails: the request Mtp|Rndis contains Rndis and is rejected by the generic
  validation, before \<^verbatim>\<open>setupFunctions\<close> and its RNDIS branch run; and for Rndis|Adb the
  generic validation is applied (it sets the ids \<^verbatim>\<open>0x18d1:0x4ee4\<close>) before the
  composition-table ids replace them.
\<close>

theorem rndis_request_fails_at_validation:
  "(GF_MTP OR GF_RNDIS) AND GF_RNDIS \<noteq> 0 \<and>
   fst (validateAndSetVidPid quiet (GF_MTP OR GF_RNDIS) idle) = CONFIGURATION_NOT_SUPPORTED \<and>
   calls (setCurrentUsbFunctions quiet (GF_MTP OR GF_RNDIS) True idle) =
     [EvResetGadget, EvCallback (GF_MTP OR GF_RNDIS) CONFIGURATION_NOT_SUPPORTED] \<and>
   take 2 (calls (setCurrentUsbFunctions quiet (GF_ADB OR GF_RNDIS) True idle)) =
     [EvResetGadget, EvSetVidPid ''0x18d1'' ''0x4ee4'']"
  unfolding run_mtp_rndis_quiet run_rndis_adb_quiet
  by (simp add: validateAndSetVidPid_def name_defs)

text \<open>
  C7. For the request Rndis|Adb on a platform whose modem type is \<open>INTERNAL\<close>, when
  no collaborator fails, \<^verbatim>\<open>setupFunctions\<close> succeeds and links, at the indices 0 to 5
  and in this order, the nodes of rndis, diag, qdss, serial_cdev and dpl and then the
  ADB node; the ids it leaves are the row of \<open>supported_compositions\<close> under the key
  \<^verbatim>\<open>rndis,diag,qdss,serial_cdev,dpl,adb\<close>.
\<close>

theorem rndis_adb_internal_composition:
  assumes "getModemType e = INTERNAL"
    and "GetProperty e USB_CONTROLLER_PROP [] \<noteq> []"
    and "\<forall>n i. \<not> link_fails e n i"
    and "\<forall>v p. \<not> setvidpid_fails e v p"
  shows "fst (setupFunctions e (GF_RNDIS OR GF_ADB) callback s) = SUCCESS \<and>
         linked (snd (setupFunctions e (GF_RNDIS OR GF_ADB) callback s)) =
           linked s @
           [(0, func_node e ''rndis''), (1, func_node e ''diag''), (2, func_node e ''qdss''),
            (3, func_node e ''serial_cdev''), (4, func_node e ''dpl''), (5, ''ffs.adb'')] \<and>
         vidpid (snd (setupFunctions e (GF_RNDIS OR GF_ADB) callback s)) =
           map_of supported_compositions ''rndis,diag,qdss,serial_cdev,dpl,adb''"
  using assms by (rule rndis_adb_internal_run [OF gf_bits(1) gf_bits(2)])

theorem rndis_adb_internal_composition_witness:
  "getModemType quiet = INTERNAL \<and>
   fst (setupFunctions quiet (GF_RNDIS OR GF_ADB) True idle) = SUCCESS \<and>
   linked (snd (setupFunctions quiet (GF_RNDIS OR GF_ADB) True idle)) =
     [(0, ''rndis''), (1, ''diag.diag''), (2, ''qdss.qdss''), (3, ''cser.dun.0''),
      (4, ''gsi.dpl''), (5, ''ffs.adb'')] \<and>
   vidpid (snd (setupFunctions quiet (GF_RNDIS OR GF_ADB) True idle)) =
     Some (''0x05C6'', ''0x90E9'')"
proof -
  have mt: "getModemType quiet = INTERNAL" by (simp add: getModemType_def quiet_def)
  have udc: "GetProperty quiet USB_CONTROLLER_PROP [] \<noteq> []"
    by (simp add: GetProperty_def quiet_def)
  have nl: "\<forall>n i. \<not> link_fails quiet n i" by (simp add: quiet_def)
  have nv: "\<forall>v p. \<not> setvidpid_fails quiet v p" by (simp add: quiet_def)
  have nodes: "func_node quiet ''rndis'' = ''rndis''" "func_node quiet ''diag'' = ''diag.diag''"
    "func_node quiet ''qdss'' = ''qdss.qdss''" "func_node quiet ''serial_cdev'' = ''cser.dun.0''"
    "func_node quiet ''dpl'' = ''gsi.dpl''"
    by (simp_all add: func_node_def supported_funcs_def rndisFuncname_def GetProperty_def
          quiet_def USB_CONTROLLER_PROP_def RNDIS_FUNC_NAME_PROP_def DIAG_FUNC_NAME_PROP_def
          QDSS_INST_NAME_PROP_def RMNET_FUNC_NAME_PROP_def DPL_INST_NAME_PROP_def)
  have idle: "linked idle = []" by (simp add: idle_def)
  show ?thesis
    using rndis_adb_internal_composition [OF mt udc nl nv, of True idle]
    by (simp add: mt nodes idle rows_defaults)
qed

text \<open>
  C8. When \<^verbatim>\<open>ffsEnabled\<close> is set and the monitor does not signal pull-up before the
  timeout, a run of \<^verbatim>\<open>setupFunctions\<close> that reaches its end registers the callback,
  starts the monitor and passes \<open>ERROR\<close> to the caller's callback (the function itself
  returns \<open>SUCCESS\<close>, so the cycle reports nothing more), with the applied flag and the
  pull-up file untouched. A later invocation of the registered callback by the monitor
  changes the applied flag only: the calls made, and so the status delivered, stay as
  they were, while \<^verbatim>\<open>getCurrentUsbFunctions\<close> reports the new flag.
\<close>

theorem pullup_timeout_reported:
  assumes "ffs_enabled e functions" and "\<not> wait_pullup e"
    and "fst (setupFunctions e functions True s) = SUCCESS"
  shows "(\<exists>cs. calls (snd (setupFunctions e functions True s)) =
            cs @ [EvRegisterCallback, EvStartMonitor, EvCallback functions ERROR]) \<and>
         unpulled s (snd (setupFunctions e functions True s)) \<and>
         (\<forall>b. calls (functionsAppliedCallback b (snd (setupFunctions e functions True s))) =
                calls (snd (setupFunctions e functions True s)) \<and>
              getCurrentUsbFunctions
                (functionsAppliedCallback b (snd (setupFunctions e functions True s))) =
                (mCurrentUsbFunctions s,
                 if b then FUNCTIONS_APPLIED else FUNCTIONS_NOT_APPLIED))"
proof -
  from setupFunctions_shape [of s e "functions" True] obtain t where
    t: "unpulled s t" and
    sh: "setupFunctions e functions True s = (ERROR, t) \<or>
         setupFunctions e functions True s =
           pull_up e functions True (GetProperty e USB_CONTROLLER_PROP [])
             (ffs_enabled e functions) t"
    by blast
  from sh assms(3) have "setupFunctions e functions True s =
           pull_up e functions True (GetProperty e USB_CONTROLLER_PROP [])
             (ffs_enabled e functions) t" by auto
  then have run: "setupFunctions e functions True s =
     (SUCCESS, called (EvCallback functions ERROR)
        ((called EvStartMonitor (called EvRegisterCallback t))\<lparr>monitorRunning := True\<rparr>))"
    using assms(1) pull_up_timeout [OF assms(2)] by simp
  show ?thesis
    using t
    by (simp add: run called_def unpulled_def functionsAppliedCallback_def
          getCurrentUsbFunctions_def)
qed

theorem pullup_timeout_reported_witness:
  "ffs_enabled never_pulled_up GF_ADB \<and> \<not> wait_pullup never_pulled_up \<and>
   fst (setupFunctions never_pulled_up GF_ADB True idle) = SUCCESS \<and>
   (\<exists>cs. calls (snd (setupFunctions never_pulled_up GF_ADB True idle)) =
            cs @ [EvRegisterCallback, EvStartMonitor, EvCallback GF_ADB ERROR]) \<and>
   getCurrentUsbFunctions
     (functionsAppliedCallback True (snd (setupFunctions never_pulled_up GF_ADB True idle))) =
     (0, FUNCTIONS_APPLIED)"
proof -
  have a: "ffs_enabled never_pulled_up GF_ADB" by (simp add: ffs_enabled_def GF_ADB_def)
  have b: "\<not> wait_pullup never_pulled_up" by (simp add: never_pulled_up_def quiet_def)
  have c: "fst (setupFunctions never_pulled_up GF_ADB True idle) = SUCCESS"
    by (simp add: run_setup_never_pulled_up)
  have d: "mCurrentUsbFunctions idle = 0" by (simp add: idle_def)
  show ?thesis using pullup_timeout_reported [OF a b c] a b c by (simp add: d)
qed

text \<open>
  C9. For every modem type, the RNDIS+ADB default and the ADB-only default chosen by
  \<^verbatim>\<open>setupFunctions\<close> have every comma-separated token in \<open>supported_funcs\<close> and
  the whole string as a key of \<open>supported_compositions\<close>; so, when neither
  \<^verbatim>\<open>linkFunction\<close> nor \<^verbatim>\<open>setVidPid\<close> fails, linking a default composition and
  setting its ids succeeds: the two ``unsupported'' branches are not taken.
\<close>

theorem default_compositions_supported:
  assumes "cmp = rndis_adb_comp mtype \<or> cmp = adb_default_comp mtype"
  shows "(\<forall>t\<in>set (tokens [] cmp). map_of supported_funcs t \<noteq> None) \<and>
         map_of supported_compositions cmp \<noteq> None \<and>
         ((\<forall>n i. \<not> link_fails e n i) \<and> (\<forall>v p. \<not> setvidpid_fails e v p) \<longrightarrow>
            fst (link_comp e cmp i s) = SUCCESS)"
proof -
  have toks: "\<forall>t\<in>set (tokens [] cmp). map_of supported_funcs t \<noteq> None"
    using assms
  proof
    assume "cmp = rndis_adb_comp mtype"
    then show ?thesis using default_tokens_supported(1) [of mtype] by simp
  next
    assume "cmp = adb_default_comp mtype"
    then show ?thesis using default_tokens_supported(2) [of mtype] by simp
  qed
  have row: "map_of supported_compositions cmp \<noteq> None"
    using assms
  proof
    assume "cmp = rndis_adb_comp mtype"
    then show ?thesis using default_rows_supported(1) [of mtype] by simp
  next
    assume "cmp = adb_default_comp mtype"
    then show ?thesis using default_rows_supported(2) [of mtype] by simp
  qed
  then obtain v p where vp: "map_of supported_compositions cmp = Some (v, p)"
    by (cases "map_of supported_compositions cmp") auto
  have toks': "\<forall>t\<in>set (tokens [] cmp). t \<noteq> ''adb'' \<longrightarrow> map_of supported_funcs t \<noteq> None"
  proof (intro ballI impI)
    fix t assume "t \<in> set (tokens [] cmp)"
    with toks show "map_of supported_funcs t \<noteq> None" by (rule bspec)
  qed
  have "fst (link_comp e cmp i s) = SUCCESS"
    if nl: "\<forall>n i. \<not> link_fails e n i" and nv: "\<forall>v p. \<not> setvidpid_fails e v p"
  proof -
    from nv have "\<not> setvidpid_fails e v p" by (rule allE) (erule allE)
    then show ?thesis by (rule link_comp_ok(1) [OF toks' vp nl])
  qed
  then have "(\<forall>n i. \<not> link_fails e n i) \<and> (\<forall>v p. \<not> setvidpid_fails e v p) \<longrightarrow>
            fst (link_comp e cmp i s) = SUCCESS" by (intro impI) (elim conjE)
  with toks row show ?thesis by (intro conjI)
qed

theorem default_compositions_supported_witness:
  "map_of supported_funcs ''diag'' \<noteq> None \<and> map_of supported_funcs ''adb'' \<noteq> None \<and>
   map_of supported_compositions ''diag,adb'' \<noteq> None \<and>
   fst (link_comp quiet ''diag,adb'' 0 idle) = SUCCESS"
  using default_compositions_supported [of "''diag,adb''" NONE quiet 0 idle]
  by (simp add: quiet_def)

text \<open>
  C10, as the code has it. The two stores come first: at the first point of a cycle the
  mask is the requested one, the applied flag is false and nothing else has changed, and
  every later point comes after the call of the reset of the teardown. At every point of
  the cycle, up to its pull-up step, \<^verbatim>\<open>getCurrentUsbFunctions\<close> reports the
  requested mask with \<open>FUNCTIONS_NOT_APPLIED\<close>; no call of \<^verbatim>\<open>linkFunction\<close>,
  \<^verbatim>\<open>unlinkFunctions\<close> or \<^verbatim>\<open>setVidPid\<close> changes the two members or the pull-up
  file; and the cycle ends at most one pull-up step and one call of the callback after the
  last point. When it has returned
  \<^verbatim>\<open>getCurrentUsbFunctions\<close> still reports the requested mask, and reports it with
  \<open>FUNCTIONS_NOT_APPLIED\<close> when the cycle failed (the label \<^verbatim>\<open>error\<close> was reached,
  with a callback or without one, or the callback was passed a status other than
  \<open>SUCCESS\<close>). The status does not stay so for ever: once the monitor invokes the
  registered callback, the status reported is the flag the monitor passed.
\<close>

theorem current_functions_reported:
  "hd (cycle_points e functions s) =
     s\<lparr>mCurrentUsbFunctions := functions, mCurrentUsbFunctionsApplied := False\<rparr> \<and>
   (\<forall>p\<in>set (tl (cycle_points e functions s)). \<exists>c. calls p = calls s @ EvResetGadget # c) \<and>
   (\<forall>p\<in>set (cycle_points e functions s).
      getCurrentUsbFunctions p = (functions, FUNCTIONS_NOT_APPLIED)) \<and>
   (\<forall>t n i v p. unpulled t (snd (linkFunction e n i t)) \<and> unpulled t (unlinkFunctions t) \<and>
      unpulled t (snd (setVidPid e v p t))) \<and>
   (\<exists>t st.
      (t = last (cycle_points e functions s) \<or>
       t = snd (pull_up e functions callback (GetProperty e USB_CONTROLLER_PROP [])
                  (ffs_enabled e functions) (last (cycle_points e functions s)))) \<and>
      (setCurrentUsbFunctions e functions callback s = t \<or>
       setCurrentUsbFunctions e functions callback s = called (EvCallback functions st) t)) \<and>
   fst (getCurrentUsbFunctions (setCurrentUsbFunctions e functions callback s)) = functions \<and>
   (cycle_status e functions callback s \<noteq> SUCCESS \<or>
    (callback \<and>
     last (calls (setCurrentUsbFunctions e functions callback s)) =
       EvCallback functions status \<and>
     status \<noteq> SUCCESS) \<longrightarrow>
      getCurrentUsbFunctions (setCurrentUsbFunctions e functions callback s) =
        (functions, FUNCTIONS_NOT_APPLIED)) \<and>
   (\<forall>b. getCurrentUsbFunctions
          (functionsAppliedCallback b (setCurrentUsbFunctions e functions callback s)) =
        (functions, if b then FUNCTIONS_APPLIED else FUNCTIONS_NOT_APPLIED))"
proof -
  let ?cyc = "setCurrentUsbFunctions e functions callback s"
  have c1: "hd (cycle_points e functions s) =
     s\<lparr>mCurrentUsbFunctions := functions, mCurrentUsbFunctionsApplied := False\<rparr>"
    by (simp add: cycle_points_def Let_def)
  have c2: "\<forall>p\<in>set (tl (cycle_points e functions s)).
      \<exists>c. calls p = calls s @ EvResetGadget # c"
    using cycle_points_frame(2) [of _ e "functions" s] by simp
  have c3: "\<forall>p\<in>set (cycle_points e functions s).
      getCurrentUsbFunctions p = (functions, FUNCTIONS_NOT_APPLIED)"
    using cycle_points_frame(1) [of _ e "functions" s] by (simp add: getCurrentUsbFunctions_def)
  have c3': "\<forall>t n i v p. unpulled t (snd (linkFunction e n i t)) \<and>
      unpulled t (unlinkFunctions t) \<and> unpulled t (snd (setVidPid e v p t))"
    by (simp add: unpulled_linkFunction unpulled_unlinkFunctions unpulled_setVidPid)
  note c4 = cycle_from_points [of e "functions" s callback]
  have m: "mCurrentUsbFunctions ?cyc = functions" by (rule cycle_member)
  have f: "\<not> mCurrentUsbFunctionsApplied ?cyc"
    if "cycle_status e functions callback s \<noteq> SUCCESS \<or>
        (callback \<and> last (calls ?cyc) = EvCallback functions status \<and> status \<noteq> SUCCESS)"
    using that
  proof
    assume "cycle_status e functions callback s \<noteq> SUCCESS"
    from cycle_status_failed [OF this] show ?thesis by simp
  next
    assume r: "callback \<and> last (calls ?cyc) = EvCallback functions status \<and>
       status \<noteq> SUCCESS"
    then have cb: "callback = True" by simp
    from r have "last (calls (setCurrentUsbFunctions e functions True s)) =
        EvCallback functions status" and "status \<noteq> SUCCESS"
      by (simp_all add: cb)
    from cycle_failed [OF this] show ?thesis by (simp add: cb)
  qed
  have c5: "fst (getCurrentUsbFunctions ?cyc) = functions"
    using m by (simp add: getCurrentUsbFunctions_def)
  have c6: "cycle_status e functions callback s \<noteq> SUCCESS \<or>
    (callback \<and> last (calls ?cyc) = EvCallback functions status \<and> status \<noteq> SUCCESS) \<longrightarrow>
      getCurrentUsbFunctions ?cyc = (functions, FUNCTIONS_NOT_APPLIED)"
  proof
    assume "cycle_status e functions callback s \<noteq> SUCCESS \<or>
      (callback \<and> last (calls ?cyc) = EvCallback functions status \<and> status \<noteq> SUCCESS)"
    from f [OF this] m show "getCurrentUsbFunctions ?cyc = (functions, FUNCTIONS_NOT_APPLIED)"
      by (simp add: getCurrentUsbFunctions_def)
  qed
  have c7: "\<forall>b. getCurrentUsbFunctions (functionsAppliedCallback b ?cyc) =
        (functions, if b then FUNCTIONS_APPLIED else FUNCTIONS_NOT_APPLIED)"
    using m by (simp add: getCurrentUsbFunctions_def functionsAppliedCallback_def)
  show ?thesis
    by (rule conjI [OF c1 conjI [OF c2 conjI [OF c3 conjI [OF c3' conjI [OF c4 conjI [OF c5
          conjI [OF c6 c7]]]]]]])
qed

theorem current_functions_reported_witness:
  "last (calls (setCurrentUsbFunctions never_pulled_up GF_ADB True idle)) =
     EvCallback GF_ADB ERROR \<and>
   getCurrentUsbFunctions (setCurrentUsbFunctions never_pulled_up GF_ADB True idle) =
     (GF_ADB, FUNCTIONS_NOT_APPLIED) \<and>
   getCurrentUsbFunctions (hd (cycle_points never_pulled_up GF_ADB idle)) =
     (GF_ADB, FUNCTIONS_NOT_APPLIED) \<and>
   calls (hd (cycle_points never_pulled_up GF_ADB idle)) = [] \<and>
   cycle_status link_fails_at_2 (GF_RNDIS OR GF_ADB) False idle = ERROR \<and>
   getCurrentUsbFunctions
     (setCurrentUsbFunctions link_fails_at_2 (GF_RNDIS OR GF_ADB) False idle) =
     (GF_RNDIS OR GF_ADB, FUNCTIONS_NOT_APPLIED)"
proof -
  have a: "last (calls (setCurrentUsbFunctions never_pulled_up GF_ADB True idle)) =
     EvCallback GF_ADB ERROR"
    unfolding run_never_pulled_up by (simp add: GF_ADB_def)
  have b: "getCurrentUsbFunctions (setCurrentUsbFunctions never_pulled_up GF_ADB True idle) =
     (GF_ADB, FUNCTIONS_NOT_APPLIED) \<and>
     hd (cycle_points never_pulled_up GF_ADB idle) =
       idle\<lparr>mCurrentUsbFunctions := GF_ADB, mCurrentUsbFunctionsApplied := False\<rparr>"
    using current_functions_reported [of never_pulled_up GF_ADB idle True ERROR] a by simp
  have c: "getCurrentUsbFunctions
     (setCurrentUsbFunctions link_fails_at_2 (GF_RNDIS OR GF_ADB) False idle) =
     (GF_RNDIS OR GF_ADB, FUNCTIONS_NOT_APPLIED)"
    using current_functions_reported [of link_fails_at_2 "GF_RNDIS OR GF_ADB" idle False ERROR]
    by (simp add: status_link_fails_at_2_silent)
  have i: "calls idle = []" by (simp add: idle_def)
  from a b c i show ?thesis
    by (simp add: getCurrentUsbFunctions_def status_link_fails_at_2_silent)
qed

text \<open>
  C10, as stated, fails: after a cycle that reported \<open>ERROR\<close> because the pull-up did
  not come in time, the monitor's callback sets the flag and
  \<^verbatim>\<open>getCurrentUsbFunctions\<close> reports \<open>FUNCTIONS_APPLIED\<close> for the failed request.
  And a cycle still in progress reports \<open>FUNCTIONS_APPLIED\<close> once its pull-up step
  is done: for the request Rndis the callback is called in the state in which the cycle
  without a callback returns, where the flag is already set.
\<close>

theorem late_pullup_reports_applied:
  "last (calls (setCurrentUsbFunctions never_pulled_up GF_ADB True idle)) =
     EvCallback GF_ADB ERROR \<and>
   getCurrentUsbFunctions
     (functionsAppliedCallback True (setCurrentUsbFunctions never_pulled_up GF_ADB True idle)) =
     (GF_ADB, FUNCTIONS_APPLIED) \<and>
   setCurrentUsbFunctions quiet GF_RNDIS True idle =
     called (EvCallback GF_RNDIS SUCCESS) (setCurrentUsbFunctions quiet GF_RNDIS False idle) \<and>
   getCurrentUsbFunctions (setCurrentUsbFunctions quiet GF_RNDIS False idle) =
     (GF_RNDIS, FUNCTIONS_APPLIED)"
  unfolding run_never_pulled_up run_rndis_quiet
  by (simp add: GF_ADB_def GF_RNDIS_def functionsAppliedCallback_def getCurrentUsbFunctions_def
        called_def)

end
